theory Spec2Isabelle
  imports Main "HOL-Library.Sublist"
begin

section \<open>Shared data: exceptions, configuration, log records\<close>

text \<open>
  The Python exceptions the application can meet. \<open>OperationalError\<close> and
  \<open>ProgrammingError\<close> stand for the classes of \<open>psycopg2.Error\<close> (the first is the one
  \<open>test_connection\<close> catches, the second any other database error); \<open>KeyboardInterrupt\<close>
  and \<open>SystemExit\<close> derive from \<open>BaseException\<close> only, every other one from \<open>Exception\<close>.
\<close>

datatype exn =
    OperationalError
  | ProgrammingError
  | ValueError
  | IndexError
  | ResourceWarning
  | ClientError
  | WaiterError
  | FileNotFoundError
  | UnpicklingError
  | KeyboardInterrupt
  | SystemExit int

fun is_OperationalError :: "exn \<Rightarrow> bool" where
  "is_OperationalError OperationalError = True"
| "is_OperationalError _ = False"

fun is_psycopg2_Error :: "exn \<Rightarrow> bool" where
  "is_psycopg2_Error OperationalError = True"
| "is_psycopg2_Error ProgrammingError = True"
| "is_psycopg2_Error _ = False"

fun is_Exception :: "exn \<Rightarrow> bool" where
  "is_Exception KeyboardInterrupt = False"
| "is_Exception (SystemExit _) = False"
| "is_Exception _ = True"

text \<open>\<open>models.py\<close>: the dataclass \<open>RedshiftConfig\<close>; \<open>redshift_port\<close> defaults to 5439.\<close>

record RedshiftConfig =
  username :: string
  password :: string
  redshift_endpoint :: string
  db_name :: string
  redshift_port :: int

definition mk_RedshiftConfig :: "string \<Rightarrow> string \<Rightarrow> string \<Rightarrow> string \<Rightarrow> RedshiftConfig" where
  "mk_RedshiftConfig u p e d =
     \<lparr>username = u, password = p, redshift_endpoint = e, db_name = d, redshift_port = 5439\<rparr>"

datatype level = INFO | WARNING | ERROR

section \<open>\<open>create_tables.py\<close>: the connection prober and the statement executor\<close>

text \<open>
  Log records of the module, one constructor per \<open>logger\<close> call, with its arguments.
\<close>

datatype logmsg =
    UsingConnectionString string
  | AttemptingToConnect int int
  | ConnectionSuccessful
  | ConnectionAttemptFailed int exn
  | WaitingBeforeRetrying int
  | AllConnectionAttemptsFailed
  | ConnectedSuccessfully
  | Running string int int string
  | QueryResult string
  | ExecutedSuccessfully string
  | ErrorExecuting string int exn
  | RetryingIn int
  | AllAttemptsFailed string
  | AllCommandsExecuted string
  | CouldNotConnect exn

text \<open>
  Every call that leaves the process is an event of the trace, in the order the calls are
  made. \<open>EvConnect config t\<close> is \<open>psycopg2.connect\<close> with \<open>connect_timeout = t\<close>;
  \<open>EvExecute i a q\<close> is \<open>cur.execute(q)\<close> for the statement at position \<open>i\<close> of the batch
  (from 0) on attempt \<open>a\<close> (from 1); \<open>EvFetchall\<close> and \<open>EvCommit\<close> carry the same position
  and attempt; \<open>EvSleep d\<close> is \<open>time.sleep(d)\<close>.
\<close>

datatype event =
    EvConnect RedshiftConfig int
  | EvConnClose
  | EvCursor
  | EvCurClose
  | EvExecute nat int string
  | EvFetchall nat int
  | EvCommit nat int
  | EvSleep int
  | EvLog level logmsg

text \<open>
  The state threaded through the module: the trace, whether a connection opened by this
  call is still open, and the positions of the statements whose \<open>conn.commit()\<close> returned.
\<close>

record st =
  trace :: "event list"
  conn_open :: bool
  committed :: "nat list"

definition init_st :: st where
  "init_st = \<lparr>trace = [], conn_open = False, committed = []\<rparr>"

definition emit :: "event \<Rightarrow> st \<Rightarrow> st" where
  "emit ev s = s\<lparr>trace := trace s @ [ev]\<rparr>"

definition log :: "level \<Rightarrow> logmsg \<Rightarrow> st \<Rightarrow> st" where
  "log lv m s = emit (EvLog lv m) s"

text \<open>
  \<open>time.sleep(d)\<close>. Whether the call returns is for the platform to say: it raises
  \<open>ValueError\<close> for a negative delay, \<open>OverflowError\<close> or \<open>OSError\<close> for one that its timer
  cannot hold, and which delays those are depends on the machine. So \<open>r\<close> is what this
  call does (\<open>None\<close>: it returns after the delay; \<open>Some e\<close>: it raises \<open>e\<close>), taken from
  the environment like the answers of the database.
\<close>

definition sleep :: "exn option \<Rightarrow> int \<Rightarrow> st \<Rightarrow> st \<times> exn option" where
  "sleep r d s = (emit (EvSleep d) s, r)"

subsection \<open>\<open>test_connection\<close>\<close>

text \<open>
  The target of the probe: what \<open>psycopg2.connect\<close> and \<open>conn.close()\<close> do on each attempt
  (\<open>None\<close>: the call returns; \<open>Some e\<close>: it raises \<open>e\<close>), and what \<open>time.sleep(delay)\<close>
  does when it is called after the failed attempt of that number.
\<close>

record probe_target =
  connect_raises :: "int \<Rightarrow> exn option"
  close_raises :: "int \<Rightarrow> exn option"
  sleep_raises :: "int \<Rightarrow> exn option"

text \<open>The body of the \<open>try\<close>; \<open>None\<close> means that it reached \<open>return\<close>.\<close>

definition try_connect :: "probe_target \<Rightarrow> RedshiftConfig \<Rightarrow> int \<Rightarrow> int \<Rightarrow> st \<Rightarrow> st \<times> exn option" where
  "try_connect tgt config retries attempt s =
     (let s1 = log INFO (UsingConnectionString (redshift_endpoint config)) s;
          s2 = log INFO (AttemptingToConnect attempt retries) s1;
          s3 = emit (EvConnect config 5) s2
      in case connect_raises tgt attempt of
           Some e \<Rightarrow> (s3, Some e)
         | None \<Rightarrow>
             (let s4 = emit EvConnClose (s3\<lparr>conn_open := True\<rparr>)
              in case close_raises tgt attempt of
                   Some e \<Rightarrow> (s4, Some e)
                 | None \<Rightarrow> (log INFO ConnectionSuccessful (s4\<lparr>conn_open := False\<rparr>), None)))"

function test_connection_loop ::
  "probe_target \<Rightarrow> RedshiftConfig \<Rightarrow> int \<Rightarrow> int \<Rightarrow> int \<Rightarrow> st \<Rightarrow> st \<times> exn option" where
  "test_connection_loop tgt config retries delay attempt s =
     (if attempt \<le> retries then
        (let r = try_connect tgt config retries attempt s in
         case snd r of
           None \<Rightarrow> (fst r, None)
         | Some e \<Rightarrow>
             if is_OperationalError e then
               (let s2 = log WARNING (ConnectionAttemptFailed attempt e) (fst r);
                    attempt' = attempt + 1
                in if attempt' \<le> retries then
                     (let w = sleep (sleep_raises tgt attempt) delay
                                (log INFO (WaitingBeforeRetrying delay) s2)
                      in case snd w of
                           Some e' \<Rightarrow> (fst w, Some e')
                         | None \<Rightarrow> test_connection_loop tgt config retries delay attempt' (fst w))
                   else (log ERROR AllConnectionAttemptsFailed s2, Some e))
             else (fst r, Some e))
      else (s, None))"
  by pat_completeness auto
termination
  by (relation "measure (\<lambda>(tgt, config, retries, delay, attempt, s). nat (retries + 1 - attempt))") auto

declare test_connection_loop.simps [simp del]

definition test_connection :: "probe_target \<Rightarrow> RedshiftConfig \<Rightarrow> int \<Rightarrow> int \<Rightarrow> st \<times> exn option" where
  "test_connection tgt config retries delay = test_connection_loop tgt config retries delay 1 init_st"

text \<open>The number of connection attempts of a trace.\<close>

fun is_connect :: "event \<Rightarrow> bool" where
  "is_connect (EvConnect _ _) = True"
| "is_connect _ = False"

definition connect_attempts :: "event list \<Rightarrow> nat" where
  "connect_attempts t = length (filter is_connect t)"

subsection \<open>\<open>run_queries\<close>\<close>

text \<open>
  \<open>str.strip()\<close>, used for the log record of a statement: leading and trailing white space
  is dropped. A \<open>char\<close> is a code point below 256; the white space among them is the
  ASCII white space, the separators \<open>0x1C\<close> to \<open>0x1F\<close>, \<open>0x85\<close> (next line) and \<open>0xA0\<close>
  (no-break space).
\<close>

definition is_space :: "char \<Rightarrow> bool" where
  "is_space c = (c \<in> set [CHR '' '', CHR 0x09, CHR 0x0A, CHR 0x0B, CHR 0x0C, CHR 0x0D,
                              CHR 0x1C, CHR 0x1D, CHR 0x1E, CHR 0x1F, CHR 0x85, CHR 0xA0])"

definition strip :: "string \<Rightarrow> string" where
  "strip q = rev (dropWhile is_space (rev (dropWhile is_space q)))"

text \<open>
  What \<open>cur.execute\<close> leaves in \<open>cur.description\<close>: \<open>None\<close> for a statement without a result
  set, otherwise the rows \<open>cur.fetchall()\<close> will hand out.
\<close>

datatype cursor_result = NoResultSet | ResultSet "string list"

text \<open>
  The warehouse: what each call of the executor meets. The calls made for a statement are
  told apart by the statement's position in the batch and the attempt number, which
  identify a call of one run; \<open>wh_sleep i a\<close> is what \<open>time.sleep(delay)\<close> does when it
  is called after the failed attempt \<open>a\<close> of the statement at position \<open>i\<close>.
\<close>

record warehouse =
  wh_connect :: "exn option"
  wh_cursor :: "exn option"
  wh_execute :: "nat \<Rightarrow> int \<Rightarrow> exn + cursor_result"
  wh_fetchall :: "nat \<Rightarrow> int \<Rightarrow> exn option"
  wh_commit :: "nat \<Rightarrow> int \<Rightarrow> exn option"
  wh_cur_close :: "exn option"
  wh_conn_close :: "exn option"
  wh_sleep :: "nat \<Rightarrow> int \<Rightarrow> exn option"

text \<open>\<open>conn.commit()\<close> and the lines after it, to the end of the \<open>try\<close>.\<close>

definition commit_step :: "warehouse \<Rightarrow> string \<Rightarrow> nat \<Rightarrow> int \<Rightarrow> st \<Rightarrow> st \<times> exn option" where
  "commit_step wh query_type i attempt s =
     (let s1 = emit (EvCommit i attempt) s
      in case wh_commit wh i attempt of
           Some e \<Rightarrow> (s1, Some e)
         | None \<Rightarrow>
             (log INFO (ExecutedSuccessfully query_type) (s1\<lparr>committed := committed s1 @ [i]\<rparr>),
              None))"

text \<open>
  The body of the inner \<open>try\<close> for one attempt of one statement; \<open>None\<close> means that it
  reached \<open>success = True\<close>.
\<close>

definition attempt_body ::
  "warehouse \<Rightarrow> string \<Rightarrow> int \<Rightarrow> nat \<Rightarrow> string \<Rightarrow> int \<Rightarrow> st \<Rightarrow> st \<times> exn option" where
  "attempt_body wh query_type retries i query attempt s =
     (let s1 = log INFO (Running query_type attempt retries (strip query)) s;
          s2 = emit (EvExecute i attempt query) s1
      in case wh_execute wh i attempt of
           Inl e \<Rightarrow> (s2, Some e)
         | Inr NoResultSet \<Rightarrow> commit_step wh query_type i attempt s2
         | Inr (ResultSet rows) \<Rightarrow>
             (let s3 = emit (EvFetchall i attempt) s2
              in case wh_fetchall wh i attempt of
                   Some e \<Rightarrow> (s3, Some e)
                 | None \<Rightarrow>
                     commit_step wh query_type i attempt
                       (fold (\<lambda>row. log INFO (QueryResult row)) rows s3)))"

text \<open>
  The \<open>while attempt <= retries and not success\<close> loop of one statement, with the
  \<open>except psycopg2.Error\<close> handler. An exception of another class, and one raised inside
  the handler, leave the loop.
\<close>

function while_attempts ::
  "warehouse \<Rightarrow> string \<Rightarrow> int \<Rightarrow> int \<Rightarrow> nat \<Rightarrow> string \<Rightarrow> int \<Rightarrow> bool \<Rightarrow> st \<Rightarrow> st \<times> exn option" where
  "while_attempts wh query_type retries delay i query attempt success s =
     (if attempt \<le> retries \<and> \<not> success then
        (let r = attempt_body wh query_type retries i query attempt s in
         case snd r of
           None \<Rightarrow> while_attempts wh query_type retries delay i query attempt True (fst r)
         | Some e \<Rightarrow>
             if is_psycopg2_Error e then
               (let s2 = log WARNING (ErrorExecuting query_type attempt e) (fst r);
                    attempt' = attempt + 1
                in if attempt' \<le> retries then
                     (let w = sleep (wh_sleep wh i attempt) delay (log INFO (RetryingIn delay) s2)
                      in case snd w of
                           Some e' \<Rightarrow> (fst w, Some e')
                         | None \<Rightarrow>
                             while_attempts wh query_type retries delay i query attempt' success (fst w))
                   else
                     while_attempts wh query_type retries delay i query attempt' success
                       (log ERROR (AllAttemptsFailed query_type) s2))
             else (fst r, Some e))
      else (s, None))"
  by pat_completeness auto
termination
  by (relation "measure (\<lambda>(wh, query_type, retries, delay, i, query, attempt, success, s).
        if success then 0 else Suc (nat (retries + 1 - attempt)))") auto

declare while_attempts.simps [simp del]

text \<open>The \<open>for query in queries\<close> loop; \<open>i\<close> is the position of the next statement.\<close>

fun for_queries ::
  "warehouse \<Rightarrow> string \<Rightarrow> int \<Rightarrow> int \<Rightarrow> nat \<Rightarrow> string list \<Rightarrow> st \<Rightarrow> st \<times> exn option" where
  "for_queries wh query_type retries delay i [] s = (s, None)"
| "for_queries wh query_type retries delay i (query # rest) s =
     (let r = while_attempts wh query_type retries delay i query 1 False s in
      case snd r of
        Some e \<Rightarrow> (fst r, Some e)
      | None \<Rightarrow> for_queries wh query_type retries delay (Suc i) rest (fst r))"

text \<open>The outer \<open>except psycopg2.Error\<close>: the error is logged and the function returns.\<close>

definition outer_handler :: "exn \<Rightarrow> st \<Rightarrow> st \<times> exn option" where
  "outer_handler e s =
     (if is_psycopg2_Error e then (log ERROR (CouldNotConnect e) s, None) else (s, Some e))"

definition run_queries ::
  "warehouse \<Rightarrow> string list \<Rightarrow> RedshiftConfig \<Rightarrow> string \<Rightarrow> int \<Rightarrow> int \<Rightarrow> st \<times> exn option" where
  "run_queries wh queries config query_type retries delay =
     (let s0 = emit (EvConnect config 10) init_st
      in case wh_connect wh of
           Some e \<Rightarrow> outer_handler e s0
         | None \<Rightarrow>
             (let s1 = emit EvCursor (s0\<lparr>conn_open := True\<rparr>)
              in case wh_cursor wh of
                   Some e \<Rightarrow> outer_handler e s1
                 | None \<Rightarrow>
                     (let r = for_queries wh query_type retries delay 0 queries
                                (log INFO ConnectedSuccessfully s1)
                      in case snd r of
                           Some e \<Rightarrow> outer_handler e (fst r)
                         | None \<Rightarrow>
                             (let s2 = emit EvCurClose (fst r)
                              in case wh_cur_close wh of
                                   Some e \<Rightarrow> outer_handler e s2
                                 | None \<Rightarrow>
                                     (let s3 = emit EvConnClose s2
                                      in case wh_conn_close wh of
                                           Some e \<Rightarrow> outer_handler e s3
                                         | None \<Rightarrow>
                                             (log INFO (AllCommandsExecuted query_type)
                                                (s3\<lparr>conn_open := False\<rparr>), None))))))"

text \<open>The number of \<open>cur.execute\<close> calls a trace holds for the statement at position \<open>i\<close>.\<close>

fun is_execute_of :: "nat \<Rightarrow> event \<Rightarrow> bool" where
  "is_execute_of i (EvExecute k _ _) = (k = i)"
| "is_execute_of i _ = False"

definition execute_attempts :: "nat \<Rightarrow> event list \<Rightarrow> nat" where
  "execute_attempts i t = length (filter (is_execute_of i) t)"

text \<open>The position of the statement an event belongs to.\<close>

fun ev_pos :: "event \<Rightarrow> nat option" where
  "ev_pos (EvExecute i _ _) = Some i"
| "ev_pos (EvFetchall i _) = Some i"
| "ev_pos (EvCommit i _) = Some i"
| "ev_pos _ = None"

section \<open>Sequencing calls that may raise\<close>

text \<open>
  A Python function is modelled as a function from the state to the new state and either
  the exception it raised (\<open>Inl\<close>) or its value (\<open>Inr\<close>). \<open>then_do\<close> runs two of them in
  a row, \<open>raise\<close> and \<open>return\<close> are the two ways to finish, and \<open>try_except_Exception\<close> is
  \<open>try: ... except Exception as e: ...\<close>.
\<close>

definition then_do ::
  "('s \<Rightarrow> 's \<times> (exn + 'a)) \<Rightarrow> ('a \<Rightarrow> 's \<Rightarrow> 's \<times> (exn + 'b)) \<Rightarrow> 's \<Rightarrow> 's \<times> (exn + 'b)" where
  "then_do m f s = (case m s of (s1, Inl e) \<Rightarrow> (s1, Inl e) | (s1, Inr v) \<Rightarrow> f v s1)"

definition return :: "'a \<Rightarrow> 's \<Rightarrow> 's \<times> (exn + 'a)" where
  "return v s = (s, Inr v)"

definition raise :: "exn \<Rightarrow> 's \<Rightarrow> 's \<times> (exn + 'a)" where
  "raise e s = (s, Inl e)"

definition try_except_Exception ::
  "('s \<Rightarrow> 's \<times> (exn + 'a)) \<Rightarrow> (exn \<Rightarrow> 's \<Rightarrow> 's \<times> (exn + 'a)) \<Rightarrow> 's \<Rightarrow> 's \<times> (exn + 'a)" where
  "try_except_Exception m h s =
     (case m s of
        (s1, Inl e) \<Rightarrow> if is_Exception e then h e s1 else (s1, Inl e)
      | (s1, Inr v) \<Rightarrow> (s1, Inr v))"

section \<open>The cloud control plane, as \<open>setup.py\<close> and \<open>teardown.py\<close> call it\<close>

text \<open>The boto3 calls of the two modules, with the arguments that vary.\<close>

datatype aws_call =
    CreateRole
  | AttachRolePolicy
  | DescribeVpcs
  | CreateSecurityGroup string
  | AuthorizeSecurityGroupIngress string int
  | DescribeSubnets string
  | CreateClusterSubnetGroup "string list"
  | DescribeClusterSubnetGroups
  | DescribeSecurityGroups "string list"
  | CreateCluster string "string list" int
  | GetWaiter string
  | WaiterWait
  | DescribeClusters
  | DeleteCluster
  | DeleteClusterSubnetGroup
  | DetachRolePolicy
  | DeleteRole
  | DeleteSecurityGroup string

datatype aws_msg =
    CreatingIamRole
  | CreatingSecurityGroup
  | CreatingSubnetGroup
  | CurrentSubnetGroups "string list"
  | LaunchingCluster
  | FoundDefaultSecurityGroup string
  | WaitingForCluster
  | ClusterAvailable
  | RedshiftEndpoint string
  | WaitingFifteenSeconds
  | SetupComplete string
  | DeletingCluster
  | WaitingClusterDeleted
  | ClusterDeleted
  | ErrorClusterDeletion
  | DeletingSubnetGroup
  | SubnetGroupDeleted
  | ErrorSubnetGroupDeletion
  | DeletingIamRole
  | IamRoleDeleted
  | ErrorIamRoleDeletion
  | DeletingSecurityGroup
  | SecurityGroupDeleted
  | ErrorSecurityGroupDeletion
  | ErrorDescription exn
  | TeardownComplete

datatype aws_event = AwsCall aws_call | AwsSleep int | AwsLog level aws_msg

text \<open>
  The control plane: whether a call raises, and what the describing and creating calls
  answer (\<open>vpcs\<close>: the \<open>VpcId\<close>s of \<open>describe_vpcs\<close>; \<open>created_arn\<close>: the \<open>Arn\<close> of
  \<open>create_role\<close>; \<open>created_group\<close>: the \<open>GroupId\<close> of \<open>create_security_group\<close>; \<open>subnets\<close>
  the \<open>SubnetId\<close>s of \<open>describe_subnets\<close>; \<open>subnet_groups\<close>: the names of
  \<open>describe_cluster_subnet_groups\<close>; \<open>security_groups\<close>: the \<open>GroupId\<close>s of
  \<open>describe_security_groups\<close> under the given filter values; \<open>clusters\<close>: the endpoint
  addresses of \<open>describe_clusters\<close>).
\<close>

record cloud =
  raises :: "aws_call \<Rightarrow> exn option"
  created_arn :: string
  vpcs :: "string list"
  created_group :: string
  subnets :: "string list"
  subnet_groups :: "string list"
  security_groups :: "string list \<Rightarrow> string list"
  clusters :: "string list"

text \<open>The values the modules read from \<open>dwh.cfg\<close> when they are imported.\<close>

record dwh_cfg =
  REGION :: string
  SECURITY_GROUP_NAME :: string
  DEFAULT_VPC_ID :: string
  DB_NAME :: string
  MASTER_USERNAME :: string
  MASTER_PASSWORD :: string
  PORT :: int

definition call :: "cloud \<Rightarrow> aws_call \<Rightarrow> aws_event list \<Rightarrow> aws_event list \<times> (exn + unit)" where
  "call cl c t = (t @ [AwsCall c], case raises cl c of Some e \<Rightarrow> Inl e | None \<Rightarrow> Inr ())"

definition aws_log :: "level \<Rightarrow> aws_msg \<Rightarrow> aws_event list \<Rightarrow> aws_event list \<times> (exn + unit)" where
  "aws_log lv m t = (t @ [AwsLog lv m], Inr ())"

text \<open>\<open>time.sleep(15)\<close>, the settle delay of \<open>setup\<close>: it returns after fifteen seconds.\<close>

definition settle_sleep :: "aws_event list \<Rightarrow> aws_event list \<times> (exn + unit)" where
  "settle_sleep t = (t @ [AwsSleep 15], Inr ())"

text \<open>\<open>xs[0]\<close>: \<open>IndexError\<close> on the empty list.\<close>

definition first_of :: "'a list \<Rightarrow> 's \<Rightarrow> 's \<times> (exn + 'a)" where
  "first_of xs = (case xs of [] \<Rightarrow> raise IndexError | x # _ \<Rightarrow> return x)"

subsection \<open>\<open>teardown.py\<close>\<close>

definition delete_redshift_cluster :: "cloud \<Rightarrow> aws_event list \<Rightarrow> aws_event list \<times> (exn + unit)" where
  "delete_redshift_cluster cl =
     then_do (aws_log INFO DeletingCluster) (\<lambda>_.
     try_except_Exception
       (then_do (call cl DeleteCluster) (\<lambda>_.
        then_do (aws_log INFO WaitingClusterDeleted) (\<lambda>_.
        then_do (call cl (GetWaiter ''cluster_deleted'')) (\<lambda>_.
        then_do (call cl WaiterWait) (\<lambda>_.
        aws_log INFO ClusterDeleted)))))
       (\<lambda>e. then_do (aws_log WARNING ErrorClusterDeletion) (\<lambda>_.
             aws_log WARNING (ErrorDescription e))))"

definition delete_subnet_group :: "cloud \<Rightarrow> aws_event list \<Rightarrow> aws_event list \<times> (exn + unit)" where
  "delete_subnet_group cl =
     then_do (aws_log INFO DeletingSubnetGroup) (\<lambda>_.
     try_except_Exception
       (then_do (call cl DeleteClusterSubnetGroup) (\<lambda>_.
        aws_log INFO SubnetGroupDeleted))
       (\<lambda>e. then_do (aws_log WARNING ErrorSubnetGroupDeletion) (\<lambda>_.
             aws_log WARNING (ErrorDescription e))))"

definition delete_iam_role :: "cloud \<Rightarrow> aws_event list \<Rightarrow> aws_event list \<times> (exn + unit)" where
  "delete_iam_role cl =
     then_do (aws_log INFO DeletingIamRole) (\<lambda>_.
     try_except_Exception
       (then_do (call cl DetachRolePolicy) (\<lambda>_.
        then_do (call cl DeleteRole) (\<lambda>_.
        aws_log INFO IamRoleDeleted)))
       (\<lambda>e. then_do (aws_log WARNING ErrorIamRoleDeletion) (\<lambda>_.
             aws_log WARNING (ErrorDescription e))))"

text \<open>\<open>for group in groups["SecurityGroups"]: ec2_client.delete_security_group(...)\<close>\<close>

fun delete_each :: "cloud \<Rightarrow> string list \<Rightarrow> aws_event list \<Rightarrow> aws_event list \<times> (exn + unit)" where
  "delete_each cl [] = return ()"
| "delete_each cl (g # gs) = then_do (call cl (DeleteSecurityGroup g)) (\<lambda>_. delete_each cl gs)"

definition delete_security_group ::
  "cloud \<Rightarrow> dwh_cfg \<Rightarrow> aws_event list \<Rightarrow> aws_event list \<times> (exn + unit)" where
  "delete_security_group cl cfg =
     then_do (aws_log INFO DeletingSecurityGroup) (\<lambda>_.
     try_except_Exception
       (then_do (call cl (DescribeSecurityGroups [SECURITY_GROUP_NAME cfg])) (\<lambda>_.
        then_do (delete_each cl (security_groups cl [SECURITY_GROUP_NAME cfg])) (\<lambda>_.
        aws_log INFO SecurityGroupDeleted)))
       (\<lambda>e. then_do (aws_log WARNING ErrorSecurityGroupDeletion) (\<lambda>_.
             aws_log WARNING (ErrorDescription e))))"

definition teardown :: "cloud \<Rightarrow> dwh_cfg \<Rightarrow> aws_event list \<Rightarrow> aws_event list \<times> (exn + unit)" where
  "teardown cl cfg =
     then_do (delete_redshift_cluster cl) (\<lambda>_.
     then_do (delete_subnet_group cl) (\<lambda>_.
     then_do (delete_iam_role cl) (\<lambda>_.
     then_do (delete_security_group cl cfg) (\<lambda>_.
     aws_log INFO TeardownComplete))))"

text \<open>The first control-plane call of each of the four deletion steps.\<close>

fun step_entry :: "aws_event \<Rightarrow> bool" where
  "step_entry (AwsCall DeleteCluster) = True"
| "step_entry (AwsCall DeleteClusterSubnetGroup) = True"
| "step_entry (AwsCall DetachRolePolicy) = True"
| "step_entry (AwsCall (DescribeSecurityGroups _)) = True"
| "step_entry _ = False"

subsection \<open>\<open>setup.py\<close>\<close>

definition create_iam_role :: "cloud \<Rightarrow> aws_event list \<Rightarrow> aws_event list \<times> (exn + string)" where
  "create_iam_role cl =
     then_do (aws_log INFO CreatingIamRole) (\<lambda>_.
     then_do (call cl CreateRole) (\<lambda>_.
     then_do (call cl AttachRolePolicy) (\<lambda>_.
     return (created_arn cl))))"

definition create_security_group ::
  "cloud \<Rightarrow> dwh_cfg \<Rightarrow> aws_event list \<Rightarrow> aws_event list \<times> (exn + string \<times> string)" where
  "create_security_group cl cfg =
     then_do (aws_log INFO CreatingSecurityGroup) (\<lambda>_.
     then_do (call cl DescribeVpcs) (\<lambda>_.
     then_do (first_of (vpcs cl)) (\<lambda>vpc_id.
     then_do (call cl (CreateSecurityGroup vpc_id)) (\<lambda>_.
     then_do (call cl (AuthorizeSecurityGroupIngress (created_group cl) (PORT cfg))) (\<lambda>_.
     return (vpc_id, created_group cl))))))"

definition create_subnet_group :: "cloud \<Rightarrow> string \<Rightarrow> aws_event list \<Rightarrow> aws_event list \<times> (exn + unit)" where
  "create_subnet_group cl vpc_id =
     then_do (aws_log INFO CreatingSubnetGroup) (\<lambda>_.
     then_do (call cl (DescribeSubnets vpc_id)) (\<lambda>_.
     then_do (call cl (CreateClusterSubnetGroup (subnets cl))) (\<lambda>_.
     then_do (call cl DescribeClusterSubnetGroups) (\<lambda>_.
     aws_log INFO (CurrentSubnetGroups (subnet_groups cl))))))"

definition launch_redshift_cluster ::
  "cloud \<Rightarrow> dwh_cfg \<Rightarrow> string \<Rightarrow> string \<Rightarrow> aws_event list \<Rightarrow> aws_event list \<times> (exn + string)" where
  "launch_redshift_cluster cl cfg role_arn security_group_id =
     then_do (aws_log INFO LaunchingCluster) (\<lambda>_.
     then_do (call cl (DescribeSecurityGroups [DEFAULT_VPC_ID cfg, ''default''])) (\<lambda>_.
     then_do (if security_groups cl [DEFAULT_VPC_ID cfg, ''default''] = []
              then raise ResourceWarning else return ()) (\<lambda>_.
     then_do (first_of (security_groups cl [DEFAULT_VPC_ID cfg, ''default''])) (\<lambda>default_sg_id.
     then_do (aws_log INFO (FoundDefaultSecurityGroup default_sg_id)) (\<lambda>_.
     then_do (call cl (CreateCluster role_arn [security_group_id, default_sg_id] (PORT cfg))) (\<lambda>_.
     then_do (aws_log INFO WaitingForCluster) (\<lambda>_.
     then_do (call cl (GetWaiter ''cluster_available'')) (\<lambda>_.
     then_do (call cl WaiterWait) (\<lambda>_.
     then_do (aws_log INFO ClusterAvailable) (\<lambda>_.
     then_do (call cl DescribeClusters) (\<lambda>_.
     then_do (first_of (clusters cl)) (\<lambda>endpoint.
     then_do (aws_log INFO (RedshiftEndpoint endpoint)) (\<lambda>_.
     return endpoint)))))))))))))"

text \<open>
  The value \<open>setup()\<close> returns and \<open>__main__.py\<close> pickles: configuration, role, region.
  The function is named \<open>setup_fn\<close> here.
\<close>

type_synonym session = "RedshiftConfig \<times> string \<times> string"

definition setup_fn :: "cloud \<Rightarrow> dwh_cfg \<Rightarrow> aws_event list \<Rightarrow> aws_event list \<times> (exn + session)" where
  "setup_fn cl cfg =
     then_do (create_iam_role cl) (\<lambda>role_arn.
     then_do (create_security_group cl cfg) (\<lambda>(vpc_id, security_group_id).
     then_do (create_subnet_group cl vpc_id) (\<lambda>_.
     then_do (aws_log INFO WaitingFifteenSeconds) (\<lambda>_.
     then_do settle_sleep (\<lambda>_.
     then_do (launch_redshift_cluster cl cfg role_arn security_group_id) (\<lambda>endpoint.
     then_do (aws_log INFO (SetupComplete endpoint)) (\<lambda>_.
     return (mk_RedshiftConfig (MASTER_USERNAME cfg) (MASTER_PASSWORD cfg) endpoint (DB_NAME cfg),
             role_arn, REGION cfg))))))))"

text \<open>
  The operations of a trace, by the name of the method called; the settle delay
  \<open>time.sleep(15)\<close> is listed as \<open>sleep\<close>, log records are left out.
\<close>

fun op_name :: "aws_event \<Rightarrow> string list" where
  "op_name (AwsCall CreateRole) = [''create_role'']"
| "op_name (AwsCall AttachRolePolicy) = [''attach_role_policy'']"
| "op_name (AwsCall DescribeVpcs) = [''describe_vpcs'']"
| "op_name (AwsCall (CreateSecurityGroup _)) = [''create_security_group'']"
| "op_name (AwsCall (AuthorizeSecurityGroupIngress _ _)) = [''authorize_security_group_ingress'']"
| "op_name (AwsCall (DescribeSubnets _)) = [''describe_subnets'']"
| "op_name (AwsCall (CreateClusterSubnetGroup _)) = [''create_cluster_subnet_group'']"
| "op_name (AwsCall DescribeClusterSubnetGroups) = [''describe_cluster_subnet_groups'']"
| "op_name (AwsCall (DescribeSecurityGroups _)) = [''describe_security_groups'']"
| "op_name (AwsCall (CreateCluster _ _ _)) = [''create_cluster'']"
| "op_name (AwsCall (GetWaiter _)) = [''get_waiter'']"
| "op_name (AwsCall WaiterWait) = [''wait'']"
| "op_name (AwsCall DescribeClusters) = [''describe_clusters'']"
| "op_name (AwsCall DeleteCluster) = [''delete_cluster'']"
| "op_name (AwsCall DeleteClusterSubnetGroup) = [''delete_cluster_subnet_group'']"
| "op_name (AwsCall DetachRolePolicy) = [''detach_role_policy'']"
| "op_name (AwsCall DeleteRole) = [''delete_role'']"
| "op_name (AwsCall (DeleteSecurityGroup _)) = [''delete_security_group'']"
| "op_name (AwsSleep _) = [''sleep'']"
| "op_name (AwsLog _ _) = []"

definition operations :: "aws_event list \<Rightarrow> string list" where
  "operations t = concat (map op_name t)"

text \<open>The operations of a provisioning run in which nothing raises.\<close>

definition setup_order :: "string list" where
  "setup_order =
     [''create_role'', ''attach_role_policy'',
      ''describe_vpcs'', ''create_security_group'', ''authorize_security_group_ingress'',
      ''describe_subnets'', ''create_cluster_subnet_group'', ''describe_cluster_subnet_groups'',
      ''sleep'',
      ''describe_security_groups'', ''create_cluster'', ''get_waiter'', ''wait'',
      ''describe_clusters'']"

section \<open>\<open>__main__.py\<close>: the command line and the pickled record\<close>

text \<open>
  The functions \<open>__main__.py\<close> calls in other modules, by what they do when called:
  \<open>setup()\<close>, \<open>teardown()\<close>, the calls of \<open>setup_redshift_tables\<close> after the record is
  loaded (\<open>test_connection\<close>, \<open>create_tables\<close>, \<open>copy_to_tables\<close>, \<open>insert_into_tables\<close>),
  \<open>etl.run_sample_queries\<close>, and \<open>pickle.dump\<close> and \<open>pickle.load\<close> over a type \<open>'b\<close> of
  file contents.
\<close>

record 'b procs =
  p_setup :: "exn + session"
  p_teardown :: "exn option"
  p_etl :: "session \<Rightarrow> exn option"
  p_sample :: "RedshiftConfig \<Rightarrow> exn option"
  p_dump :: "session \<Rightarrow> 'b"
  p_load :: "'b \<Rightarrow> exn + session"

datatype main_msg =
    SetupOutputSaved
  | LoadingSetupOutput
  | AttemptingConnection RedshiftConfig
  | EtlComplete
  | DeletedPickleFile
  | PickleFileNotFoundNothingToDelete
  | StartingSetup
  | PickleNotFoundRunSetupFirst
  | StartingEtl
  | StartingTeardown
  | PickleNotFoundRunSetupAndEtlFirst
  | RunningSampleQueries
  | NoValidOption

datatype main_event =
    CalledSetup
  | CalledTeardown
  | CalledEtl session
  | CalledSampleQueries RedshiftConfig
  | MainLog level main_msg

text \<open>The files of the application's directory, and what \<open>__main__.py\<close> has done.\<close>

record 'b world =
  files :: "string \<rightharpoonup> 'b"
  did :: "main_event list"

definition pickle_path :: string where
  "pickle_path = ''setup_output.pkl''"

definition record_ev :: "main_event \<Rightarrow> 'b world \<Rightarrow> 'b world \<times> (exn + unit)" where
  "record_ev ev w = (w\<lparr>did := did w @ [ev]\<rparr>, Inr ())"

definition main_log :: "level \<Rightarrow> main_msg \<Rightarrow> 'b world \<Rightarrow> 'b world \<times> (exn + unit)" where
  "main_log lv m = record_ev (MainLog lv m)"

definition of_option :: "exn option \<Rightarrow> 's \<Rightarrow> 's \<times> (exn + unit)" where
  "of_option r = (case r of Some e \<Rightarrow> raise e | None \<Rightarrow> return ())"

definition of_sum :: "exn + 'a \<Rightarrow> 's \<Rightarrow> 's \<times> (exn + 'a)" where
  "of_sum r = (case r of Inl e \<Rightarrow> raise e | Inr v \<Rightarrow> return v)"

definition write_file :: "string \<Rightarrow> 'b \<Rightarrow> 'b world \<Rightarrow> 'b world \<times> (exn + unit)" where
  "write_file path b w = (w\<lparr>files := (files w)(path \<mapsto> b)\<rparr>, Inr ())"

definition read_file :: "string \<Rightarrow> 'b world \<Rightarrow> 'b world \<times> (exn + 'b)" where
  "read_file path w = (case files w path of None \<Rightarrow> raise FileNotFoundError w | Some b \<Rightarrow> return b w)"

definition unlink :: "string \<Rightarrow> 'b world \<Rightarrow> 'b world \<times> (exn + unit)" where
  "unlink path w =
     (case files w path of
        None \<Rightarrow> raise FileNotFoundError w
      | Some b \<Rightarrow> return () (w\<lparr>files := (files w)(path := None)\<rparr>))"

definition file_exists :: "string \<Rightarrow> 'b world \<Rightarrow> bool" where
  "file_exists path w = (files w path \<noteq> None)"

definition run_and_pickle_setup :: "'b procs \<Rightarrow> 'b world \<Rightarrow> 'b world \<times> (exn + unit)" where
  "run_and_pickle_setup pr =
     then_do (record_ev CalledSetup) (\<lambda>_.
     then_do (of_sum (p_setup pr)) (\<lambda>(redshift_config, role_arn, region).
     then_do (write_file pickle_path (p_dump pr (redshift_config, role_arn, region))) (\<lambda>_.
     main_log INFO SetupOutputSaved)))"

definition load_pickled_setup :: "'b procs \<Rightarrow> 'b world \<Rightarrow> 'b world \<times> (exn + session)" where
  "load_pickled_setup pr =
     then_do (main_log INFO LoadingSetupOutput) (\<lambda>_.
     then_do (read_file pickle_path) (\<lambda>b.
     then_do (of_sum (p_load pr b)) (\<lambda>(redshift_config, role_arn, region).
     return (redshift_config, role_arn, region))))"

definition setup_redshift_tables :: "'b procs \<Rightarrow> 'b world \<Rightarrow> 'b world \<times> (exn + unit)" where
  "setup_redshift_tables pr =
     then_do (load_pickled_setup pr) (\<lambda>(redshift_config, role_arn, region).
     then_do (main_log INFO (AttemptingConnection redshift_config)) (\<lambda>_.
     then_do (record_ev (CalledEtl (redshift_config, role_arn, region))) (\<lambda>_.
     then_do (of_option (p_etl pr (redshift_config, role_arn, region))) (\<lambda>_.
     main_log INFO EtlComplete))))"

definition run_sample_queries :: "'b procs \<Rightarrow> 'b world \<Rightarrow> 'b world \<times> (exn + unit)" where
  "run_sample_queries pr =
     then_do (load_pickled_setup pr) (\<lambda>(redshift_config, role_arn, region).
     then_do (record_ev (CalledSampleQueries redshift_config)) (\<lambda>_.
     of_option (p_sample pr redshift_config)))"

definition run_teardown :: "'b procs \<Rightarrow> 'b world \<Rightarrow> 'b world \<times> (exn + unit)" where
  "run_teardown pr =
     then_do (record_ev CalledTeardown) (\<lambda>_.
     then_do (of_option (p_teardown pr)) (\<lambda>_.
     (\<lambda>w. if file_exists pickle_path w
          then then_do (unlink pickle_path) (\<lambda>_. main_log INFO DeletedPickleFile) w
          else main_log WARNING PickleFileNotFoundNothingToDelete w)))"

text \<open>
  The parsed command line: the four \<open>store_true\<close> flags. \<open>argparse\<close> accepts exactly one of
  them (a required, mutually exclusive group); \<open>main\<close> tests them in the order below.
\<close>

record args =
  arg_setup :: bool
  arg_etl :: bool
  arg_teardown :: bool
  arg_sample :: bool

definition main :: "'b procs \<Rightarrow> args \<Rightarrow> 'b world \<Rightarrow> 'b world \<times> (exn + unit)" where
  "main pr a =
     (if arg_setup a then
        then_do (main_log INFO StartingSetup) (\<lambda>_. run_and_pickle_setup pr)
      else if arg_etl a then
        (\<lambda>w. if \<not> file_exists pickle_path w
             then then_do (main_log ERROR PickleNotFoundRunSetupFirst) (\<lambda>_. raise (SystemExit 1)) w
             else then_do (main_log INFO StartingEtl) (\<lambda>_. setup_redshift_tables pr) w)
      else if arg_teardown a then
        then_do (main_log INFO StartingTeardown) (\<lambda>_. run_teardown pr)
      else if arg_sample a then
        (\<lambda>w. if \<not> file_exists pickle_path w
             then then_do (main_log ERROR PickleNotFoundRunSetupAndEtlFirst) (\<lambda>_. raise (SystemExit 1)) w
             else then_do (main_log INFO RunningSampleQueries) (\<lambda>_. run_sample_queries pr) w)
      else then_do (main_log ERROR NoValidOption) (\<lambda>_. raise (SystemExit 1)))"

text \<open>
  The status with which the process ends, as \<open>subprocess\<close> reports it on Linux: 0 when
  \<open>main\<close> returns; after \<open>SystemExit n\<close> the low eight bits of \<open>n\<close> (255 when \<open>n\<close> does
  not fit a C \<open>long\<close>); \<open>- 2\<close> after \<open>KeyboardInterrupt\<close>, where the interpreter ends
  itself with \<open>SIGINT\<close>; 1 after any other uncaught exception.
\<close>

fun exit_status :: "exn + unit \<Rightarrow> int" where
  "exit_status (Inr _) = 0"
| "exit_status (Inl (SystemExit n)) =
     (if - (2 ^ 63) \<le> n \<and> n < 2 ^ 63 then n mod 256 else 255)"
| "exit_status (Inl KeyboardInterrupt) = - 2"
| "exit_status (Inl _) = 1"

section \<open>Reading the trace of the statement executor\<close>

text \<open>
  An attempt has executed when \<open>cur.execute\<close> returned and, for a statement with a result
  set, \<open>cur.fetchall\<close> returned as well: the next call of the \<open>try\<close> body is
  \<open>conn.commit()\<close>.
\<close>

definition executed_ok :: "warehouse \<Rightarrow> nat \<Rightarrow> int \<Rightarrow> bool" where
  "executed_ok wh i a =
     (case wh_execute wh i a of
        Inl e \<Rightarrow> False
      | Inr NoResultSet \<Rightarrow> True
      | Inr (ResultSet rows) \<Rightarrow> wh_fetchall wh i a = None)"

text \<open>The statement positions of the execute, fetch and commit calls of a trace, in order.\<close>

definition positions :: "event list \<Rightarrow> nat list" where
  "positions t = concat (map (\<lambda>ev. case ev_pos ev of None \<Rightarrow> [] | Some p \<Rightarrow> [p]) t)"

text \<open>
  What holds of the state between two attempts, while the statement at position \<open>n\<close> is
  the current one: an attempt that executed was followed by its commit call; a commit that
  returned is recorded; the calls are in the order of the batch, and none is for a
  statement after \<open>n\<close>.
\<close>

definition stmt_inv :: "warehouse \<Rightarrow> nat \<Rightarrow> st \<Rightarrow> bool" where
  "stmt_inv wh n s =
     ((\<forall>i a q. EvExecute i a q \<in> set (trace s) \<and> executed_ok wh i a \<longrightarrow> EvCommit i a \<in> set (trace s))
      \<and> (\<forall>i a. EvCommit i a \<in> set (trace s) \<and> wh_commit wh i a = None \<longrightarrow> i \<in> set (committed s))
      \<and> sorted (positions (trace s))
      \<and> (\<forall>p \<in> set (positions (trace s)). p \<le> n))"

text \<open>
  The order of the calls of one attempt. After \<open>cur.execute\<close> only \<open>cur.fetchall\<close> of the
  same attempt and the log records of its rows come before \<open>conn.commit()\<close>:
  \<open>until_commit i a t\<close> holds when \<open>t\<close> starts with such calls and then has the commit of
  attempt \<open>a\<close> of statement \<open>i\<close>; \<open>commits_follow\<close> asks it after every attempt that
  executed. \<open>back_to_execute\<close> and \<open>executes_precede\<close> read a trace backwards: before a
  commit, going back over the same calls, stands the \<open>cur.execute\<close> of its own attempt.
  \<open>block\<close> holds of a piece of a trace that has both properties.
\<close>

fun is_row_log :: "event \<Rightarrow> bool" where
  "is_row_log (EvLog INFO (QueryResult row)) = True"
| "is_row_log _ = False"

fun until_commit :: "nat \<Rightarrow> int \<Rightarrow> event list \<Rightarrow> bool" where
  "until_commit i a [] = False"
| "until_commit i a (ev # t) =
     (ev = EvCommit i a \<or> ((ev = EvFetchall i a \<or> is_row_log ev) \<and> until_commit i a t))"

fun commits_follow :: "warehouse \<Rightarrow> event list \<Rightarrow> bool" where
  "commits_follow wh [] = True"
| "commits_follow wh (EvExecute i a q # t) =
     ((executed_ok wh i a \<longrightarrow> until_commit i a t) \<and> commits_follow wh t)"
| "commits_follow wh (ev # t) = commits_follow wh t"

fun is_execute_at :: "nat \<Rightarrow> int \<Rightarrow> event \<Rightarrow> bool" where
  "is_execute_at i a (EvExecute k b q) = (k = i \<and> b = a)"
| "is_execute_at i a _ = False"

fun back_to_execute :: "nat \<Rightarrow> int \<Rightarrow> event list \<Rightarrow> bool" where
  "back_to_execute i a [] = False"
| "back_to_execute i a (ev # t) =
     (is_execute_at i a ev \<or> ((ev = EvFetchall i a \<or> is_row_log ev) \<and> back_to_execute i a t))"

fun executes_precede :: "event list \<Rightarrow> bool" where
  "executes_precede [] = True"
| "executes_precede (EvCommit i a # t) = (back_to_execute i a t \<and> executes_precede t)"
| "executes_precede (ev # t) = executes_precede t"

definition block :: "warehouse \<Rightarrow> event list \<Rightarrow> bool" where
  "block wh u = (commits_follow wh u \<and> executes_precede (rev u))"

section \<open>Reading the trace of the provisioner\<close>

text \<open>
  A computation over the control plane is fail-stop when it only appends to the trace and
  a call of its own that raised is the last thing it did, the exception being its result.
\<close>

definition fail_stop :: "cloud \<Rightarrow> (aws_event list \<Rightarrow> aws_event list \<times> (exn + 'a)) \<Rightarrow> bool" where
  "fail_stop cl m =
     (\<forall>t. \<exists>d. fst (m t) = t @ d
         \<and> (\<forall>c e. AwsCall c \<in> set d \<and> raises cl c = Some e \<longrightarrow>
               snd (m t) = Inl e \<and> last (fst (m t)) = AwsCall c))"

section \<open>Concrete inputs\<close>

text \<open>
  Targets for \<open>test_connection\<close>: one that refuses every connection and one that refuses
  the first two; with the delays of the examples, 5 and 10 seconds, \<open>time.sleep\<close> returns.
\<close>

definition cfg0 :: RedshiftConfig where
  "cfg0 = mk_RedshiftConfig ''awsuser'' ''secret'' ''dwh.example.com'' ''dev''"

definition always_failing_target :: probe_target where
  "always_failing_target =
     \<lparr>connect_raises = (\<lambda>a. Some OperationalError), close_raises = (\<lambda>a. None),
      sleep_raises = (\<lambda>a. None)\<rparr>"

definition fails_twice_target :: probe_target where
  "fails_twice_target =
     \<lparr>connect_raises = (\<lambda>a. if a \<le> 2 then Some OperationalError else None),
      close_raises = (\<lambda>a. None), sleep_raises = (\<lambda>a. None)\<rparr>"

text \<open>
  The always-failing target as a call with the delay \<open>- 1\<close> meets it: \<open>time.sleep(-1)\<close>
  raises \<open>ValueError\<close>.
\<close>

definition negative_delay_target :: probe_target where
  "negative_delay_target = always_failing_target\<lparr>sleep_raises := (\<lambda>a. Some ValueError)\<rparr>"

text \<open>
  Warehouses for \<open>run_queries\<close>. In \<open>healthy_warehouse\<close> every call returns and no statement
  has a result set. In \<open>second_fails_warehouse\<close> the statement at position 1 raises
  \<open>ProgrammingError\<close> on every attempt and the others return rows. In
  \<open>first_attempt_fails_warehouse\<close> only the first attempt of the statement at position 0
  raises. \<open>unreachable_warehouse\<close> refuses the connection. With the delay of the
  examples, 5 seconds, \<open>time.sleep\<close> returns.
\<close>

definition healthy_warehouse :: warehouse where
  "healthy_warehouse =
     \<lparr>wh_connect = None, wh_cursor = None,
      wh_execute = (\<lambda>i a. Inr NoResultSet),
      wh_fetchall = (\<lambda>i a. None), wh_commit = (\<lambda>i a. None),
      wh_cur_close = None, wh_conn_close = None, wh_sleep = (\<lambda>i a. None)\<rparr>"

definition second_fails_warehouse :: warehouse where
  "second_fails_warehouse =
     \<lparr>wh_connect = None, wh_cursor = None,
      wh_execute = (\<lambda>i a. if i = 1 then Inl ProgrammingError else Inr (ResultSet [''row''])),
      wh_fetchall = (\<lambda>i a. None), wh_commit = (\<lambda>i a. None),
      wh_cur_close = None, wh_conn_close = None, wh_sleep = (\<lambda>i a. None)\<rparr>"

definition first_attempt_fails_warehouse :: warehouse where
  "first_attempt_fails_warehouse =
     \<lparr>wh_connect = None, wh_cursor = None,
      wh_execute = (\<lambda>i a. if i = 0 \<and> a = 1 then Inl OperationalError else Inr NoResultSet),
      wh_fetchall = (\<lambda>i a. None), wh_commit = (\<lambda>i a. None),
      wh_cur_close = None, wh_conn_close = None, wh_sleep = (\<lambda>i a. None)\<rparr>"

definition unreachable_warehouse :: warehouse where
  "unreachable_warehouse =
     \<lparr>wh_connect = Some OperationalError, wh_cursor = None,
      wh_execute = (\<lambda>i a. Inr NoResultSet),
      wh_fetchall = (\<lambda>i a. None), wh_commit = (\<lambda>i a. None),
      wh_cur_close = None, wh_conn_close = None, wh_sleep = (\<lambda>i a. None)\<rparr>"

definition three_queries :: "string list" where
  "three_queries = [''DROP TABLE IF EXISTS a;'', ''DROP TABLE IF EXISTS b;'', ''DROP TABLE IF EXISTS c;'']"

text \<open>
  In \<open>interrupted_warehouse\<close> the statement at position 1 is interrupted from the keyboard
  while it runs.
\<close>

definition interrupted_warehouse :: warehouse where
  "interrupted_warehouse =
     \<lparr>wh_connect = None, wh_cursor = None,
      wh_execute = (\<lambda>i a. if i = 1 then Inl KeyboardInterrupt else Inr NoResultSet),
      wh_fetchall = (\<lambda>i a. None), wh_commit = (\<lambda>i a. None),
      wh_cur_close = None, wh_conn_close = None, wh_sleep = (\<lambda>i a. None)\<rparr>"

text \<open>
  Two of the warehouses as a call with the delay \<open>- 1\<close> meets them: \<open>time.sleep(-1)\<close> raises
  \<open>ValueError\<close>.
\<close>

definition second_fails_negative_delay_warehouse :: warehouse where
  "second_fails_negative_delay_warehouse =
     second_fails_warehouse\<lparr>wh_sleep := (\<lambda>i a. Some ValueError)\<rparr>"

definition first_attempt_fails_negative_delay_warehouse :: warehouse where
  "first_attempt_fails_negative_delay_warehouse =
     first_attempt_fails_warehouse\<lparr>wh_sleep := (\<lambda>i a. Some ValueError)\<rparr>"

text \<open>
  Warehouses in which every statement succeeds and one call around the batch raises a
  database error: \<open>conn.cursor()\<close>, \<open>cur.close()\<close> or \<open>conn.close()\<close>.
\<close>

definition no_cursor_warehouse :: warehouse where
  "no_cursor_warehouse = healthy_warehouse\<lparr>wh_cursor := Some OperationalError\<rparr>"

definition cursor_close_fails_warehouse :: warehouse where
  "cursor_close_fails_warehouse = healthy_warehouse\<lparr>wh_cur_close := Some OperationalError\<rparr>"

definition connection_close_fails_warehouse :: warehouse where
  "connection_close_fails_warehouse = healthy_warehouse\<lparr>wh_conn_close := Some OperationalError\<rparr>"

text \<open>
  Control planes for \<open>setup.py\<close> and \<open>teardown.py\<close>: in \<open>failing_cloud\<close> every call raises
  \<open>ClientError\<close>; in \<open>healthy_cloud\<close> none does; in \<open>no_default_group_cloud\<close> none does, but
  the default security group of the VPC is not found.
\<close>

definition dwh :: dwh_cfg where
  "dwh = \<lparr>REGION = ''us-west-2'', SECURITY_GROUP_NAME = ''redshift-sg'',
           DEFAULT_VPC_ID = ''vpc-1'', DB_NAME = ''dev'', MASTER_USERNAME = ''awsuser'',
           MASTER_PASSWORD = ''secret'', PORT = 5439\<rparr>"

definition healthy_cloud :: cloud where
  "healthy_cloud =
     \<lparr>raises = (\<lambda>c. None), created_arn = ''arn:aws:iam::1:role/dwh'', vpcs = [''vpc-1''],
      created_group = ''sg-new'', subnets = [''subnet-a'', ''subnet-b''],
      subnet_groups = [''dwh-subnets''],
      security_groups = (\<lambda>f. if f = [''redshift-sg''] then [''sg-new''] else [''sg-default'']),
      clusters = [''dwh.example.com'']\<rparr>"

definition failing_cloud :: cloud where
  "failing_cloud = healthy_cloud\<lparr>raises := (\<lambda>c. Some ClientError)\<rparr>"

definition no_default_group_cloud :: cloud where
  "no_default_group_cloud = healthy_cloud\<lparr>security_groups := (\<lambda>f. [])\<rparr>"

text \<open>
  Inputs for \<open>__main__.py\<close>: a directory without the pickled record, one command line per
  operation, and procedures to call. As file contents, \<open>pickle_dump\<close> writes the six
  strings and the port of a session next to each other and \<open>pickle_load\<close> reads them back;
  they stand for \<open>pickle.dump\<close> and \<open>pickle.load\<close> in the examples.
\<close>

definition pickle_dump :: "session \<Rightarrow> string list \<times> int" where
  "pickle_dump v =
     (case v of (c, role_arn, region) \<Rightarrow>
        ([username c, password c, redshift_endpoint c, db_name c, role_arn, region],
         redshift_port c))"

fun pickle_load :: "string list \<times> int \<Rightarrow> exn + session" where
  "pickle_load ([u, p, e, d, role_arn, region], port) =
     Inr (\<lparr>username = u, password = p, redshift_endpoint = e, db_name = d, redshift_port = port\<rparr>,
          role_arn, region)"
| "pickle_load _ = Inl UnpicklingError"

definition demo_session :: session where
  "demo_session =
     (mk_RedshiftConfig ''awsuser'' ''secret'' ''dwh.example.com'' ''dev'',
      ''arn:aws:iam::1:role/dwh'', ''us-west-2'')"

definition demo_procs :: "(string list \<times> int) procs" where
  "demo_procs =
     \<lparr>p_setup = Inr demo_session, p_teardown = None, p_etl = (\<lambda>v. None),
      p_sample = (\<lambda>c. None), p_dump = pickle_dump, p_load = pickle_load\<rparr>"

definition empty_world :: "(string list \<times> int) world" where
  "empty_world = \<lparr>files = Map.empty, did = []\<rparr>"

text \<open>
  A directory in which the record of another session, not the one \<open>setup()\<close> of
  \<open>demo_procs\<close> returns, is stored.
\<close>

definition other_session :: session where
  "other_session =
     (\<lparr>username = ''admin'', password = ''pw'', redshift_endpoint = ''other.example.com'',
       db_name = ''sales'', redshift_port = 5440\<rparr>,
      ''arn:aws:iam::2:role/other'', ''eu-west-1'')"

definition stored_world :: "(string list \<times> int) world" where
  "stored_world = \<lparr>files = [pickle_path \<mapsto> pickle_dump other_session], did = []\<rparr>"

definition etl_args :: args where
  "etl_args = \<lparr>arg_setup = False, arg_etl = True, arg_teardown = False, arg_sample = False\<rparr>"

definition sample_args :: args where
  "sample_args = \<lparr>arg_setup = False, arg_etl = False, arg_teardown = False, arg_sample = True\<rparr>"

definition teardown_args :: args where
  "teardown_args = \<lparr>arg_setup = False, arg_etl = False, arg_teardown = True, arg_sample = False\<rparr>"

section \<open>Properties of the connection prober\<close>

lemma connect_attempts_append [simp]:
  "connect_attempts (xs @ ys) = connect_attempts xs + connect_attempts ys"
  by (simp add: connect_attempts_def)

lemma connect_attempts_simps [simp]:
  "connect_attempts [] = 0"
  "connect_attempts (ev # t) = (if is_connect ev then Suc (connect_attempts t) else connect_attempts t)"
  by (simp_all add: connect_attempts_def)

lemma try_connect_raises:
  assumes "connect_raises tgt a = Some e"
  shows "snd (try_connect tgt config N a s) = Some e"
    and "connect_attempts (trace (fst (try_connect tgt config N a s))) = Suc (connect_attempts (trace s))"
  using assms by (simp_all add: try_connect_def Let_def emit_def log_def)

lemma try_connect_returns:
  assumes "connect_raises tgt a = None" "close_raises tgt a = None"
  shows "snd (try_connect tgt config N a s) = None"
    and "connect_attempts (trace (fst (try_connect tgt config N a s))) = Suc (connect_attempts (trace s))"
  using assms by (simp_all add: try_connect_def Let_def emit_def log_def)

lemma loop_all_fail:
  assumes "\<forall>b. a \<le> b \<and> b < N \<longrightarrow> sleep_raises tgt b = None"
    and "\<forall>b. a \<le> b \<and> b \<le> N \<longrightarrow> (\<exists>e. connect_raises tgt b = Some e \<and> is_OperationalError e)"
    and "a \<le> N"
  shows "connect_attempts (trace (fst (test_connection_loop tgt config N delay a s)))
           = connect_attempts (trace s) + nat (N - a + 1)
         \<and> snd (test_connection_loop tgt config N delay a s) = connect_raises tgt N"
  using assms
proof (induction "nat (N - a)" arbitrary: a s)
  case 0
  then have aN: "a = N" by simp
  from "0.prems" aN obtain e where e: "connect_raises tgt N = Some e" "is_OperationalError e"
    by blast
  show ?case
    unfolding aN
    by (subst (1 2) test_connection_loop.simps)
       (simp add: Let_def try_connect_raises [OF e(1)] e log_def emit_def)
next
  case (Suc n)
  then have lt: "a < N" and n: "n = nat (N - (a + 1))" by simp_all
  from Suc.prems lt obtain e where e: "connect_raises tgt a = Some e" "is_OperationalError e"
    by (metis order_refl)
  from Suc.prems(1) lt have sl: "sleep_raises tgt a = None" by simp
  have hyp: "\<forall>b. a + 1 \<le> b \<and> b \<le> N \<longrightarrow> (\<exists>e. connect_raises tgt b = Some e \<and> is_OperationalError e)"
    using Suc.prems(2) by simp
  have hyp': "\<forall>b. a + 1 \<le> b \<and> b < N \<longrightarrow> sleep_raises tgt b = None"
    using Suc.prems(1) by simp
  have le: "a + 1 \<le> N" using lt by simp
  note IH = Suc.hyps(1) [OF n hyp' hyp le]
  show ?case
    by (subst (1 2) test_connection_loop.simps)
       (use lt le sl in
         \<open>simp add: Let_def try_connect_raises [OF e(1)] e sleep_def IH log_def emit_def nat_add_distrib\<close>)
qed

lemma loop_fail_then_connect:
  assumes "\<forall>b. a \<le> b \<and> b \<le> k \<longrightarrow> sleep_raises tgt b = None"
    and "\<forall>b. a \<le> b \<and> b \<le> k \<longrightarrow> (\<exists>e. connect_raises tgt b = Some e \<and> is_OperationalError e)"
    and "a \<le> k + 1" and "k < N"
    and "connect_raises tgt (k + 1) = None" and "close_raises tgt (k + 1) = None"
  shows "connect_attempts (trace (fst (test_connection_loop tgt config N delay a s)))
           = connect_attempts (trace s) + nat (k + 1 - a + 1)
         \<and> snd (test_connection_loop tgt config N delay a s) = None"
  using assms
proof (induction "nat (k + 1 - a)" arbitrary: a s)
  case 0
  then have ak: "a = k + 1" by simp
  show ?case
    unfolding ak
    by (subst (1 2) test_connection_loop.simps)
       (use "0.prems" in \<open>simp add: Let_def try_connect_returns\<close>)
next
  case (Suc n)
  then have lt: "a \<le> k" and n: "n = nat (k + 1 - (a + 1))" by simp_all
  from Suc.prems lt obtain e where e: "connect_raises tgt a = Some e" "is_OperationalError e"
    by (metis order_refl)
  from Suc.prems(1) lt have sl: "sleep_raises tgt a = None" by simp
  have hyp: "\<forall>b. a + 1 \<le> b \<and> b \<le> k \<longrightarrow> (\<exists>e. connect_raises tgt b = Some e \<and> is_OperationalError e)"
    using Suc.prems(2) by simp
  have hyp': "\<forall>b. a + 1 \<le> b \<and> b \<le> k \<longrightarrow> sleep_raises tgt b = None"
    using Suc.prems(1) by simp
  have le: "a + 1 \<le> k + 1" "a + 1 \<le> N" "a \<le> N" using lt Suc.prems(4) by simp_all
  note IH = Suc.hyps(1) [OF n hyp' hyp le(1) Suc.prems(4,5,6)]
  show ?case
    by (subst (1 2) test_connection_loop.simps)
       (use lt le sl in
         \<open>simp add: Let_def try_connect_raises [OF e(1)] e sleep_def IH log_def emit_def nat_add_distrib\<close>)
qed

text \<open>
  Claim C10. With a \<open>retries\<close> value of 0 or less, \<open>test_connection\<close> makes no
  connection attempt at all (its trace stays empty) and returns normally, whatever the
  target would have answered: no exception is raised.
\<close>

theorem test_connection_nonpositive_retries:
  "retries \<le> 0 \<Longrightarrow>
     trace (fst (test_connection tgt config retries delay)) = [] \<and>
     connect_attempts (trace (fst (test_connection tgt config retries delay))) = 0 \<and>
     snd (test_connection tgt config retries delay) = None"
  by (simp add: test_connection_def test_connection_loop.simps init_st_def)

theorem test_connection_nonpositive_retries_witness:
  "(0::int) \<le> 0 \<and>
   trace (fst (test_connection always_failing_target cfg0 0 10)) = [] \<and>
   connect_attempts (trace (fst (test_connection always_failing_target cfg0 0 10))) = 0 \<and>
   snd (test_connection always_failing_target cfg0 0 10) = None"
  using test_connection_nonpositive_retries [of 0 always_failing_target cfg0 10] by simp

text \<open>
  Claim C2, amended. For \<open>N \<ge> 1\<close> attempts, when every \<open>time.sleep(delay)\<close> between two
  attempts returns (which a negative delay, and one too large for the platform's timer,
  do not allow): against a target whose every connection attempt raises
  \<open>OperationalError\<close>, \<open>test_connection\<close> makes exactly \<open>N\<close> connection attempts and then
  raises the error of the last attempt to its caller; against a target that fails \<open>k < N\<close>
  times with \<open>OperationalError\<close> and then connects (and closes), it makes exactly \<open>k + 1\<close>
  attempts and returns normally.
\<close>

theorem test_connection_attempts:
  assumes "1 \<le> N" and "\<forall>a. 1 \<le> a \<and> a < N \<longrightarrow> sleep_raises tgt a = None"
  shows "((\<forall>a. 1 \<le> a \<and> a \<le> N \<longrightarrow> (\<exists>e. connect_raises tgt a = Some e \<and> is_OperationalError e)) \<longrightarrow>
            connect_attempts (trace (fst (test_connection tgt config N delay))) = nat N \<and>
            snd (test_connection tgt config N delay) = connect_raises tgt N \<and>
            (\<exists>e. snd (test_connection tgt config N delay) = Some e \<and> is_OperationalError e))
       \<and> (0 \<le> k \<and> k < N \<and>
            (\<forall>a. 1 \<le> a \<and> a \<le> k \<longrightarrow> (\<exists>e. connect_raises tgt a = Some e \<and> is_OperationalError e)) \<and>
            connect_raises tgt (k + 1) = None \<and> close_raises tgt (k + 1) = None \<longrightarrow>
            connect_attempts (trace (fst (test_connection tgt config N delay))) = nat (k + 1) \<and>
            snd (test_connection tgt config N delay) = None)"
proof (intro conjI impI)
  assume fails: "\<forall>a. 1 \<le> a \<and> a \<le> N \<longrightarrow> (\<exists>e. connect_raises tgt a = Some e \<and> is_OperationalError e)"
  note L = loop_all_fail [OF assms(2) fails assms(1), of config delay init_st]
  from L show "connect_attempts (trace (fst (test_connection tgt config N delay))) = nat N"
    by (simp add: test_connection_def init_st_def)
  from L show r: "snd (test_connection tgt config N delay) = connect_raises tgt N"
    by (simp add: test_connection_def)
  from fails assms(1) obtain e where "connect_raises tgt N = Some e" "is_OperationalError e"
    by (metis order_refl)
  with r show "\<exists>e. snd (test_connection tgt config N delay) = Some e \<and> is_OperationalError e"
    by simp
next
  assume h: "0 \<le> k \<and> k < N \<and>
            (\<forall>a. 1 \<le> a \<and> a \<le> k \<longrightarrow> (\<exists>e. connect_raises tgt a = Some e \<and> is_OperationalError e)) \<and>
            connect_raises tgt (k + 1) = None \<and> close_raises tgt (k + 1) = None"
  then have a: "(1::int) \<le> k + 1" by simp
  from h assms(2) have sl: "\<forall>b. 1 \<le> b \<and> b \<le> k \<longrightarrow> sleep_raises tgt b = None"
    by simp
  from h have
    L: "connect_attempts (trace (fst (test_connection_loop tgt config N delay 1 init_st)))
           = connect_attempts (trace init_st) + nat (k + 1 - 1 + 1)
         \<and> snd (test_connection_loop tgt config N delay 1 init_st) = None"
    by (intro loop_fail_then_connect [OF sl _ a]) simp_all
  from L show "connect_attempts (trace (fst (test_connection tgt config N delay))) = nat (k + 1)"
    by (simp add: test_connection_def init_st_def)
  from L show "snd (test_connection tgt config N delay) = None"
    by (simp add: test_connection_def)
qed

theorem test_connection_attempts_witness:
  "connect_attempts (trace (fst (test_connection always_failing_target cfg0 3 10))) = 3 \<and>
   snd (test_connection always_failing_target cfg0 3 10) = Some OperationalError \<and>
   connect_attempts (trace (fst (test_connection fails_twice_target cfg0 3 10))) = 3 \<and>
   snd (test_connection fails_twice_target cfg0 3 10) = None"
proof -
  have N: "(1::int) \<le> 3" by simp
  have s1: "\<forall>a. 1 \<le> a \<and> a < 3 \<longrightarrow> sleep_raises always_failing_target a = None"
    by (simp add: always_failing_target_def)
  have s2: "\<forall>a. 1 \<le> a \<and> a < 3 \<longrightarrow> sleep_raises fails_twice_target a = None"
    by (simp add: fails_twice_target_def)
  have "connect_attempts (trace (fst (test_connection always_failing_target cfg0 3 10))) = 3 \<and>
        snd (test_connection always_failing_target cfg0 3 10) = Some OperationalError"
    using test_connection_attempts [OF N s1, where k = 0 and config = cfg0 and delay = 10]
    by (simp add: always_failing_target_def)
  moreover
  have "connect_attempts (trace (fst (test_connection fails_twice_target cfg0 3 10))) = 3 \<and>
        snd (test_connection fails_twice_target cfg0 3 10) = None"
    using test_connection_attempts [OF N s2, where k = 2 and config = cfg0 and delay = 10]
    by (simp add: fails_twice_target_def)
  ultimately show ?thesis by simp
qed

text \<open>
  Claim C2 as stated, for every \<open>N\<close>, fails: with \<open>N = 0\<close> the always-failing target is
  never tried and the function returns normally instead of raising; and with the delay
  \<open>- 1\<close> the first failed attempt is followed by \<open>time.sleep\<close> raising \<open>ValueError\<close>, so
  that one attempt is made instead of three and the error raised is not the connectivity
  error.
\<close>

theorem test_connection_attempts_counterexample:
  "connect_attempts (trace (fst (test_connection always_failing_target cfg0 0 10))) = 0 \<and>
   snd (test_connection always_failing_target cfg0 0 10) = None \<and>
   connect_attempts (trace (fst (test_connection negative_delay_target cfg0 3 (- 1)))) = 1 \<and>
   snd (test_connection negative_delay_target cfg0 3 (- 1)) = Some ValueError"
  by (simp add: test_connection_def test_connection_loop.simps init_st_def try_connect_def
        negative_delay_target_def always_failing_target_def Let_def log_def emit_def sleep_def)

section \<open>Properties of the statement executor\<close>

lemma execute_attempts_append [simp]:
  "execute_attempts i (xs @ ys) = execute_attempts i xs + execute_attempts i ys"
  by (simp add: execute_attempts_def)

lemma execute_attempts_simps [simp]:
  "execute_attempts i [] = 0"
  "execute_attempts i (ev # t) = (if is_execute_of i ev then Suc (execute_attempts i t) else execute_attempts i t)"
  by (simp_all add: execute_attempts_def)

lemma fold_log_rows [simp]:
  "trace (fold (\<lambda>row. log INFO (QueryResult row)) rows s)
     = trace s @ map (\<lambda>row. EvLog INFO (QueryResult row)) rows"
  "committed (fold (\<lambda>row. log INFO (QueryResult row)) rows s) = committed s"
  "conn_open (fold (\<lambda>row. log INFO (QueryResult row)) rows s) = conn_open s"
  by (induction rows arbitrary: s) (simp_all add: log_def emit_def)

lemma execute_attempts_rows [simp]:
  "execute_attempts i (map (\<lambda>row. EvLog INFO (QueryResult row)) rows) = 0"
  by (induction rows) simp_all

lemma attempt_body_raises:
  assumes "wh_execute wh i a = Inl e"
  shows "snd (attempt_body wh qt N i q a s) = Some e"
    and "committed (fst (attempt_body wh qt N i q a s)) = committed s"
    and "conn_open (fst (attempt_body wh qt N i q a s)) = conn_open s"
    and "execute_attempts k (trace (fst (attempt_body wh qt N i q a s)))
           = execute_attempts k (trace s) + (if k = i then 1 else 0)"
  using assms by (simp_all add: attempt_body_def Let_def log_def emit_def)

lemma attempt_body_succeeds:
  assumes "wh_execute wh i a = Inr r" "wh_fetchall wh i a = None" "wh_commit wh i a = None"
  shows "snd (attempt_body wh qt N i q a s) = None"
    and "committed (fst (attempt_body wh qt N i q a s)) = committed s @ [i]"
    and "conn_open (fst (attempt_body wh qt N i q a s)) = conn_open s"
    and "execute_attempts k (trace (fst (attempt_body wh qt N i q a s)))
           = execute_attempts k (trace s) + (if k = i then 1 else 0)"
  using assms
  by (cases r; simp add: attempt_body_def commit_step_def Let_def log_def emit_def)+

lemma while_after_success [simp]:
  "while_attempts wh qt N d i q a True s = (s, None)"
  by (simp add: while_attempts.simps)

lemma while_first_attempt_succeeds:
  assumes "1 \<le> N" "wh_execute wh i 1 = Inr r" "wh_fetchall wh i 1 = None" "wh_commit wh i 1 = None"
  shows "snd (while_attempts wh qt N d i q 1 False s) = None"
    and "committed (fst (while_attempts wh qt N d i q 1 False s)) = committed s @ [i]"
    and "conn_open (fst (while_attempts wh qt N d i q 1 False s)) = conn_open s"
    and "execute_attempts k (trace (fst (while_attempts wh qt N d i q 1 False s)))
           = execute_attempts k (trace s) + (if k = i then 1 else 0)"
  by (subst while_attempts.simps,
      simp add: assms(1) Let_def attempt_body_succeeds [OF assms(2-4)])+

lemma while_every_attempt_fails:
  assumes "\<forall>b. a \<le> b \<and> b < N \<longrightarrow> wh_sleep wh j b = None"
    and "\<forall>b. a \<le> b \<and> b \<le> N \<longrightarrow> (\<exists>e. wh_execute wh j b = Inl e \<and> is_psycopg2_Error e)"
    and "a \<le> N + 1"
  shows "snd (while_attempts wh qt N d j q a False s) = None
       \<and> committed (fst (while_attempts wh qt N d j q a False s)) = committed s
       \<and> conn_open (fst (while_attempts wh qt N d j q a False s)) = conn_open s
       \<and> (\<forall>k. execute_attempts k (trace (fst (while_attempts wh qt N d j q a False s)))
             = execute_attempts k (trace s) + (if k = j then nat (N + 1 - a) else 0))"
  using assms
proof (induction "nat (N + 1 - a)" arbitrary: a s)
  case 0
  then have "\<not> a \<le> N" by simp
  then show ?case
    by (subst (1 2 3 4) while_attempts.simps) simp
next
  case (Suc n)
  then have le: "a \<le> N" and n: "n = nat (N + 1 - (a + 1))" by simp_all
  from Suc.prems le obtain e where e: "wh_execute wh j a = Inl e" "is_psycopg2_Error e"
    by (metis order_refl)
  have hyp: "\<forall>b. a + 1 \<le> b \<and> b \<le> N \<longrightarrow> (\<exists>e. wh_execute wh j b = Inl e \<and> is_psycopg2_Error e)"
    using Suc.prems(2) by simp
  have hyp': "\<forall>b. a + 1 \<le> b \<and> b < N \<longrightarrow> wh_sleep wh j b = None"
    using Suc.prems(1) by simp
  have sl: "a + 1 \<le> N \<Longrightarrow> wh_sleep wh j a = None"
    using Suc.prems(1) by simp
  have le': "a + 1 \<le> N + 1" using le by simp
  note IH = Suc.hyps(1) [OF n hyp' hyp le']
  show ?case
    by (subst (1 2 3 4) while_attempts.simps)
       (use le sl in
         \<open>simp add: Let_def attempt_body_raises [OF e(1)] e sleep_def IH log_def emit_def nat_add_distrib\<close>)
qed

lemma for_queries_one_failing:
  assumes "1 \<le> N" "\<forall>a. 1 \<le> a \<and> a < N \<longrightarrow> wh_sleep wh j a = None"
    and "\<forall>a. 1 \<le> a \<and> a \<le> N \<longrightarrow> (\<exists>e. wh_execute wh j a = Inl e \<and> is_psycopg2_Error e)"
    and "\<forall>p. i \<le> p \<and> p < i + length qs \<and> p \<noteq> j \<longrightarrow>
           (\<exists>r. wh_execute wh p 1 = Inr r) \<and> wh_fetchall wh p 1 = None \<and> wh_commit wh p 1 = None"
  shows "snd (for_queries wh qt N d i qs s) = None
       \<and> committed (fst (for_queries wh qt N d i qs s))
           = committed s @ filter (\<lambda>p. p \<noteq> j) [i..<i + length qs]
       \<and> conn_open (fst (for_queries wh qt N d i qs s)) = conn_open s
       \<and> (\<forall>k. execute_attempts k (trace (fst (for_queries wh qt N d i qs s)))
             = execute_attempts k (trace s)
               + (if i \<le> k \<and> k < i + length qs then (if k = j then nat N else 1) else 0))"
  using assms(4)
proof (induction qs arbitrary: i s)
  case Nil
  show ?case by simp
next
  case (Cons q qs)
  have rest: "\<forall>p. Suc i \<le> p \<and> p < Suc i + length qs \<and> p \<noteq> j \<longrightarrow>
           (\<exists>r. wh_execute wh p 1 = Inr r) \<and> wh_fetchall wh p 1 = None \<and> wh_commit wh p 1 = None"
    using Cons.prems by simp
  note IH = Cons.IH [OF rest]
  have "i < i + length (q # qs)" by simp
  from upt_conv_Cons [OF this]
  have up: "[i..<i + length (q # qs)] = i # [Suc i..<Suc i + length qs]"
    by simp
  show ?case
  proof (cases "i = j")
    case True
    have one: "(1::int) \<le> N + 1" using assms(1) by simp
    note W = while_every_attempt_fails [OF assms(2) assms(3) one, where qt = qt and d = d and q = q and s = s]
    show ?thesis
      unfolding up using W IH True by (simp add: Let_def)
  next
    case False
    from Cons.prems False obtain r where
      ok: "wh_execute wh i 1 = Inr r" "wh_fetchall wh i 1 = None" "wh_commit wh i 1 = None"
      by (metis le_refl less_add_Suc1 length_Cons add_Suc_right)
    note W = while_first_attempt_succeeds [OF assms(1) ok, where qt = qt and d = d and q = q and s = s]
    show ?thesis
      unfolding up using W IH False by (auto simp add: Let_def)
  qed
qed

text \<open>
  Claim C1, amended. With \<open>retries \<ge> 1\<close>, in a batch whose connection, cursor and closing
  calls succeed, where the statement at position \<open>j\<close> raises a database error on every
  attempt, every \<open>time.sleep(delay)\<close> between two of its attempts returns (which a negative
  delay, and one too large for the platform's timer, do not allow) and every other
  statement executes, fetches and commits on its first attempt: \<open>run_queries\<close> calls
  \<open>cur.execute\<close> exactly \<open>retries\<close> times for statement \<open>j\<close>, exactly once for each other
  statement, commits all the others in the order of the batch, returns without raising and
  closes the connection.
\<close>

theorem run_queries_one_failing_statement:
  assumes "1 \<le> retries"
    and "\<forall>a. 1 \<le> a \<and> a < retries \<longrightarrow> wh_sleep wh j a = None"
    and "wh_connect wh = None" and "wh_cursor wh = None"
    and "wh_cur_close wh = None" and "wh_conn_close wh = None"
    and "j < length queries"
    and "\<forall>a. 1 \<le> a \<and> a \<le> retries \<longrightarrow> (\<exists>e. wh_execute wh j a = Inl e \<and> is_psycopg2_Error e)"
    and "\<forall>i. i < length queries \<and> i \<noteq> j \<longrightarrow>
           (\<exists>r. wh_execute wh i 1 = Inr r) \<and> wh_fetchall wh i 1 = None \<and> wh_commit wh i 1 = None"
  shows "execute_attempts j (trace (fst (run_queries wh queries config query_type retries delay))) = nat retries
       \<and> (\<forall>i. i < length queries \<and> i \<noteq> j \<longrightarrow>
             execute_attempts i (trace (fst (run_queries wh queries config query_type retries delay))) = 1)
       \<and> committed (fst (run_queries wh queries config query_type retries delay))
           = filter (\<lambda>i. i \<noteq> j) [0..<length queries]
       \<and> snd (run_queries wh queries config query_type retries delay) = None
       \<and> \<not> conn_open (fst (run_queries wh queries config query_type retries delay))"
proof -
  have others: "\<forall>p. 0 \<le> p \<and> p < 0 + length queries \<and> p \<noteq> j \<longrightarrow>
           (\<exists>r. wh_execute wh p 1 = Inr r) \<and> wh_fetchall wh p 1 = None \<and> wh_commit wh p 1 = None"
    using assms(9) by simp
  note F = for_queries_one_failing [OF assms(1,2,8) others, where qt = query_type and d = delay]
  show ?thesis
    using F assms(3-7)
    by (simp add: run_queries_def Let_def log_def emit_def init_st_def)
qed

theorem run_queries_one_failing_statement_witness:
  "execute_attempts 1 (trace (fst (run_queries second_fails_warehouse three_queries cfg0 ''DROP'' 3 5))) = 3
   \<and> execute_attempts 0 (trace (fst (run_queries second_fails_warehouse three_queries cfg0 ''DROP'' 3 5))) = 1
   \<and> execute_attempts 2 (trace (fst (run_queries second_fails_warehouse three_queries cfg0 ''DROP'' 3 5))) = 1
   \<and> committed (fst (run_queries second_fails_warehouse three_queries cfg0 ''DROP'' 3 5)) = [0, 2]
   \<and> snd (run_queries second_fails_warehouse three_queries cfg0 ''DROP'' 3 5) = None
   \<and> \<not> conn_open (fst (run_queries second_fails_warehouse three_queries cfg0 ''DROP'' 3 5))"
proof -
  have up: "[0..<3] = [0, 1, 2]" by (simp add: upt_conv_Cons)
  have "execute_attempts 1 (trace (fst (run_queries second_fails_warehouse three_queries cfg0 ''DROP'' 3 5))) = nat 3
       \<and> (\<forall>i. i < length three_queries \<and> i \<noteq> 1 \<longrightarrow>
             execute_attempts i (trace (fst (run_queries second_fails_warehouse three_queries cfg0 ''DROP'' 3 5))) = 1)
       \<and> committed (fst (run_queries second_fails_warehouse three_queries cfg0 ''DROP'' 3 5))
           = filter (\<lambda>i. i \<noteq> 1) [0..<length three_queries]
       \<and> snd (run_queries second_fails_warehouse three_queries cfg0 ''DROP'' 3 5) = None
       \<and> \<not> conn_open (fst (run_queries second_fails_warehouse three_queries cfg0 ''DROP'' 3 5))"
    by (rule run_queries_one_failing_statement)
       (simp_all add: second_fails_warehouse_def three_queries_def)
  then show ?thesis
    by (simp add: three_queries_def up)
qed

text \<open>
  Claim C1 as stated fails: with \<open>retries = 0\<close> no statement is executed at all, so that
  the statements that would succeed are not run; and with the delay \<open>- 1\<close> the first
  failure of the statement at position 1 is followed by \<open>time.sleep\<close> raising
  \<open>ValueError\<close>, which leaves \<open>run_queries\<close> after one attempt, the statement at
  position 2 never executed.
\<close>

theorem run_queries_one_failing_statement_counterexample:
  "execute_attempts 0 (trace (fst (run_queries second_fails_warehouse three_queries cfg0 ''DROP'' 0 5))) = 0
   \<and> execute_attempts 2 (trace (fst (run_queries second_fails_warehouse three_queries cfg0 ''DROP'' 0 5))) = 0
   \<and> committed (fst (run_queries second_fails_warehouse three_queries cfg0 ''DROP'' 0 5)) = []
   \<and> execute_attempts 1 (trace (fst (run_queries second_fails_negative_delay_warehouse
         three_queries cfg0 ''DROP'' 3 (- 1)))) = 1
   \<and> execute_attempts 2 (trace (fst (run_queries second_fails_negative_delay_warehouse
         three_queries cfg0 ''DROP'' 3 (- 1)))) = 0
   \<and> snd (run_queries second_fails_negative_delay_warehouse three_queries cfg0 ''DROP'' 3 (- 1))
       = Some ValueError"
  by (simp add: run_queries_def while_attempts.simps attempt_body_def commit_step_def
        outer_handler_def second_fails_negative_delay_warehouse_def second_fails_warehouse_def
        three_queries_def
        Let_def log_def emit_def sleep_def init_st_def)

text \<open>
  Claim C9. When \<open>psycopg2.connect\<close> raises a database error, \<open>run_queries\<close> has made that
  one connection call and logged the error once, at level \<open>ERROR\<close>: the trace holds nothing
  else (no statement is executed, no second connection attempt is made), and the function
  returns normally.
\<close>

theorem run_queries_connect_failure:
  assumes "wh_connect wh = Some e" and "is_psycopg2_Error e"
  shows "run_queries wh queries config query_type retries delay
           = (\<lparr>trace = [EvConnect config 10, EvLog ERROR (CouldNotConnect e)],
               conn_open = False, committed = []\<rparr>, None)"
  using assms by (simp add: run_queries_def outer_handler_def Let_def log_def emit_def init_st_def)

theorem run_queries_connect_failure_witness:
  "run_queries unreachable_warehouse three_queries cfg0 ''DROP'' 3 5
     = (\<lparr>trace = [EvConnect cfg0 10, EvLog ERROR (CouldNotConnect OperationalError)],
         conn_open = False, committed = []\<rparr>, None)"
  by (rule run_queries_connect_failure) (simp_all add: unreachable_warehouse_def)

lemma attempt_body_conn_open [simp]:
  "conn_open (fst (attempt_body wh qt N i q a s)) = conn_open s"
  by (simp add: attempt_body_def commit_step_def Let_def log_def emit_def
        split: sum.splits cursor_result.splits option.splits)

lemma attempt_body_error_source:
  "snd (attempt_body wh qt N i q a s) = Some e \<Longrightarrow>
     wh_execute wh i a = Inl e \<or> wh_fetchall wh i a = Some e \<or> wh_commit wh i a = Some e"
  by (simp add: attempt_body_def commit_step_def Let_def
        split: sum.splits cursor_result.splits option.splits)

lemma while_attempts_conn_open:
  "conn_open (fst (while_attempts wh qt N d i q a success s)) = conn_open s"
proof (induction "if success then 0 else Suc (nat (N + 1 - a))" arbitrary: a success s)
  case 0
  then have "success \<or> \<not> a \<le> N" by (simp split: if_splits)
  then show ?case
    by (subst while_attempts.simps) auto
next
  case (Suc n)
  then have ns: "\<not> success" and n: "n = nat (N + 1 - a)" by (simp_all split: if_splits)
  show ?case
  proof (cases "a \<le> N")
    case False
    then show ?thesis
      by (subst while_attempts.simps) simp
  next
    case True
    then have n': "n = Suc (nat (N + 1 - (a + 1)))" using n by simp
    have IH: "\<And>s'. conn_open (fst (while_attempts wh qt N d i q (a + 1) False s')) = conn_open s'"
      using Suc.hyps(1) [of False "a + 1"] n' by simp
    show ?thesis
      by (subst while_attempts.simps)
         (use True ns in
           \<open>simp add: Let_def sleep_def IH log_def emit_def split: option.splits\<close>)
  qed
qed

lemma for_queries_conn_open:
  "conn_open (fst (for_queries wh qt N d i qs s)) = conn_open s"
proof (induction qs arbitrary: i s)
  case Nil
  show ?case by simp
next
  case (Cons q qs)
  show ?case
    using Cons.IH while_attempts_conn_open [of wh qt N d i q 1 False s]
    by (simp add: Let_def split: option.splits)
qed

lemma while_only_db_errors_aux:
  assumes "\<forall>i a. wh_sleep wh i a = None"
    and "\<forall>i a e. wh_execute wh i a = Inl e \<longrightarrow> is_psycopg2_Error e"
    and "\<forall>i a e. wh_fetchall wh i a = Some e \<longrightarrow> is_psycopg2_Error e"
    and "\<forall>i a e. wh_commit wh i a = Some e \<longrightarrow> is_psycopg2_Error e"
  shows "snd (while_attempts wh qt N d i q a False s) = None"
proof (induction "nat (N + 1 - a)" arbitrary: a s)
  case 0
  then have "\<not> a \<le> N" by simp
  then show ?case
    by (subst while_attempts.simps) simp
next
  case (Suc n)
  then have le: "a \<le> N" and n: "n = nat (N + 1 - (a + 1))" by simp_all
  note IH = Suc.hyps(1) [OF n]
  show ?case
  proof (cases "snd (attempt_body wh qt N i q a s)")
    case None
    then show ?thesis
      using le by (subst while_attempts.simps) (simp add: Let_def)
  next
    case (Some e)
    from attempt_body_error_source [OF Some] assms(2-4) have db: "is_psycopg2_Error e"
      by blast
    show ?thesis
      by (subst while_attempts.simps)
         (use le Some db assms(1) in \<open>simp add: Let_def sleep_def IH\<close>)
  qed
qed

lemma for_queries_only_db_errors:
  assumes "\<forall>i a. wh_sleep wh i a = None"
    and "\<forall>i a e. wh_execute wh i a = Inl e \<longrightarrow> is_psycopg2_Error e"
    and "\<forall>i a e. wh_fetchall wh i a = Some e \<longrightarrow> is_psycopg2_Error e"
    and "\<forall>i a e. wh_commit wh i a = Some e \<longrightarrow> is_psycopg2_Error e"
  shows "snd (for_queries wh qt N d i qs s) = None"
proof (induction qs arbitrary: i s)
  case Nil
  show ?case by simp
next
  case (Cons q qs)
  note W = while_only_db_errors_aux [OF assms, where qt = qt and N = N and d = d and i = i
             and q = q and a = 1 and s = s]
  show ?case
    using W Cons.IH by (simp add: Let_def)
qed

lemma run_queries_left_open:
  assumes "wh_connect wh = None"
  shows "snd (run_queries wh queries config qt N d) = Some e \<Longrightarrow>
           conn_open (fst (run_queries wh queries config qt N d))"
    and "wh_cursor wh \<noteq> None \<or> wh_cur_close wh \<noteq> None \<or> wh_conn_close wh \<noteq> None \<Longrightarrow>
           conn_open (fst (run_queries wh queries config qt N d))"
  using assms
  by (auto simp add: run_queries_def outer_handler_def Let_def log_def emit_def init_st_def
        for_queries_conn_open split: option.splits if_splits)

text \<open>
  Claim C4, amended. In a call of \<open>run_queries\<close> that opened the connection: when the
  cursor is opened, every exception raised by \<open>cur.execute\<close>, \<open>cur.fetchall\<close> and
  \<open>conn.commit\<close> is a database error, every \<open>time.sleep\<close> between attempts returns and the
  two closing calls return, the function reaches \<open>conn.close()\<close>, the connection is closed
  and the function returns normally. On the other exits it is left open: whenever an
  exception reaches the caller, and whenever \<open>conn.cursor()\<close>, \<open>cur.close()\<close> or
  \<open>conn.close()\<close> raised, the connection is still open when the function is left.
\<close>

theorem run_queries_closes_connection:
  assumes "wh_connect wh = None"
  shows "(wh_cursor wh = None \<and> wh_cur_close wh = None \<and> wh_conn_close wh = None
          \<and> (\<forall>i a. wh_sleep wh i a = None)
          \<and> (\<forall>i a e. wh_execute wh i a = Inl e \<longrightarrow> is_psycopg2_Error e)
          \<and> (\<forall>i a e. wh_fetchall wh i a = Some e \<longrightarrow> is_psycopg2_Error e)
          \<and> (\<forall>i a e. wh_commit wh i a = Some e \<longrightarrow> is_psycopg2_Error e) \<longrightarrow>
            \<not> conn_open (fst (run_queries wh queries config query_type retries delay))
            \<and> EvConnClose \<in> set (trace (fst (run_queries wh queries config query_type retries delay)))
            \<and> snd (run_queries wh queries config query_type retries delay) = None)
       \<and> (\<forall>e. snd (run_queries wh queries config query_type retries delay) = Some e \<longrightarrow>
            conn_open (fst (run_queries wh queries config query_type retries delay)))
       \<and> (wh_cursor wh \<noteq> None \<or> wh_cur_close wh \<noteq> None \<or> wh_conn_close wh \<noteq> None \<longrightarrow>
            conn_open (fst (run_queries wh queries config query_type retries delay)))"
proof (intro conjI impI allI)
  assume h: "wh_cursor wh = None \<and> wh_cur_close wh = None \<and> wh_conn_close wh = None
          \<and> (\<forall>i a. wh_sleep wh i a = None)
          \<and> (\<forall>i a e. wh_execute wh i a = Inl e \<longrightarrow> is_psycopg2_Error e)
          \<and> (\<forall>i a e. wh_fetchall wh i a = Some e \<longrightarrow> is_psycopg2_Error e)
          \<and> (\<forall>i a e. wh_commit wh i a = Some e \<longrightarrow> is_psycopg2_Error e)"
  then have F: "\<And>s. snd (for_queries wh query_type retries delay 0 queries s) = None"
    by (intro for_queries_only_db_errors) simp_all
  from h F assms
  show "\<not> conn_open (fst (run_queries wh queries config query_type retries delay))"
    and "EvConnClose \<in> set (trace (fst (run_queries wh queries config query_type retries delay)))"
    and "snd (run_queries wh queries config query_type retries delay) = None"
    by (simp_all add: run_queries_def Let_def log_def emit_def init_st_def)
next
  fix e
  assume "snd (run_queries wh queries config query_type retries delay) = Some e"
  then show "conn_open (fst (run_queries wh queries config query_type retries delay))"
    by (rule run_queries_left_open(1) [OF assms])
next
  assume "wh_cursor wh \<noteq> None \<or> wh_cur_close wh \<noteq> None \<or> wh_conn_close wh \<noteq> None"
  then show "conn_open (fst (run_queries wh queries config query_type retries delay))"
    by (rule run_queries_left_open(2) [OF assms])
qed

theorem run_queries_closes_connection_witness:
  "\<not> conn_open (fst (run_queries first_attempt_fails_warehouse three_queries cfg0 ''DROP'' 3 5))
   \<and> EvConnClose \<in> set (trace (fst (run_queries first_attempt_fails_warehouse three_queries cfg0 ''DROP'' 3 5)))
   \<and> snd (run_queries first_attempt_fails_warehouse three_queries cfg0 ''DROP'' 3 5) = None
   \<and> conn_open (fst (run_queries no_cursor_warehouse three_queries cfg0 ''DROP'' 3 5))"
proof -
  have c: "wh_connect first_attempt_fails_warehouse = None"
    by (simp add: first_attempt_fails_warehouse_def)
  have h: "wh_cursor first_attempt_fails_warehouse = None
          \<and> wh_cur_close first_attempt_fails_warehouse = None
          \<and> wh_conn_close first_attempt_fails_warehouse = None
          \<and> (\<forall>i a. wh_sleep first_attempt_fails_warehouse i a = None)
          \<and> (\<forall>i a e. wh_execute first_attempt_fails_warehouse i a = Inl e \<longrightarrow> is_psycopg2_Error e)
          \<and> (\<forall>i a e. wh_fetchall first_attempt_fails_warehouse i a = Some e \<longrightarrow> is_psycopg2_Error e)
          \<and> (\<forall>i a e. wh_commit first_attempt_fails_warehouse i a = Some e \<longrightarrow> is_psycopg2_Error e)"
    by (simp add: first_attempt_fails_warehouse_def split: if_splits)
  have c': "wh_connect no_cursor_warehouse = None"
    and n: "wh_cursor no_cursor_warehouse \<noteq> None"
    by (simp_all add: no_cursor_warehouse_def healthy_warehouse_def)
  from run_queries_closes_connection [OF c, of three_queries cfg0 "''DROP''" 3 5] h
  have "\<not> conn_open (fst (run_queries first_attempt_fails_warehouse three_queries cfg0 ''DROP'' 3 5))
   \<and> EvConnClose \<in> set (trace (fst (run_queries first_attempt_fails_warehouse three_queries cfg0 ''DROP'' 3 5)))
   \<and> snd (run_queries first_attempt_fails_warehouse three_queries cfg0 ''DROP'' 3 5) = None"
    by blast
  moreover
  from run_queries_closes_connection [OF c', of three_queries cfg0 "''DROP''" 3 5] n
  have "conn_open (fst (run_queries no_cursor_warehouse three_queries cfg0 ''DROP'' 3 5))"
    by blast
  ultimately show ?thesis by simp
qed

text \<open>
  Claim C4 as stated, for every exit path, fails: the function has no \<open>finally\<close> and no
  \<open>with\<close>. In each of these runs the connection was opened and is open when the function
  is left: \<open>time.sleep(-1)\<close> raises \<open>ValueError\<close> after a failed attempt, and a statement is
  interrupted from the keyboard, which both reach the caller with \<open>conn.close()\<close> never
  called; \<open>conn.cursor()\<close> or \<open>cur.close()\<close> raises a database error, which is logged
  before the function returns, \<open>conn.close()\<close> never called; and \<open>conn.close()\<close> itself
  raises.
\<close>

theorem run_queries_closes_connection_counterexample:
  "wh_connect first_attempt_fails_negative_delay_warehouse = None
   \<and> conn_open (fst (run_queries first_attempt_fails_negative_delay_warehouse
        three_queries cfg0 ''DROP'' 3 (- 1)))
   \<and> EvConnClose \<notin> set (trace (fst (run_queries first_attempt_fails_negative_delay_warehouse
        three_queries cfg0 ''DROP'' 3 (- 1))))
   \<and> snd (run_queries first_attempt_fails_negative_delay_warehouse three_queries cfg0 ''DROP'' 3 (- 1))
       = Some ValueError
   \<and> wh_connect interrupted_warehouse = None
   \<and> conn_open (fst (run_queries interrupted_warehouse three_queries cfg0 ''DROP'' 3 5))
   \<and> EvConnClose \<notin> set (trace (fst (run_queries interrupted_warehouse three_queries cfg0 ''DROP'' 3 5)))
   \<and> snd (run_queries interrupted_warehouse three_queries cfg0 ''DROP'' 3 5) = Some KeyboardInterrupt
   \<and> wh_connect no_cursor_warehouse = None
   \<and> conn_open (fst (run_queries no_cursor_warehouse three_queries cfg0 ''DROP'' 3 5))
   \<and> EvConnClose \<notin> set (trace (fst (run_queries no_cursor_warehouse three_queries cfg0 ''DROP'' 3 5)))
   \<and> snd (run_queries no_cursor_warehouse three_queries cfg0 ''DROP'' 3 5) = None
   \<and> wh_connect cursor_close_fails_warehouse = None
   \<and> conn_open (fst (run_queries cursor_close_fails_warehouse three_queries cfg0 ''DROP'' 3 5))
   \<and> EvConnClose \<notin> set (trace (fst (run_queries cursor_close_fails_warehouse three_queries cfg0 ''DROP'' 3 5)))
   \<and> snd (run_queries cursor_close_fails_warehouse three_queries cfg0 ''DROP'' 3 5) = None
   \<and> wh_connect connection_close_fails_warehouse = None
   \<and> conn_open (fst (run_queries connection_close_fails_warehouse three_queries cfg0 ''DROP'' 3 5))
   \<and> snd (run_queries connection_close_fails_warehouse three_queries cfg0 ''DROP'' 3 5) = None"
  by (simp add: run_queries_def while_attempts.simps attempt_body_def commit_step_def
        outer_handler_def first_attempt_fails_negative_delay_warehouse_def
        first_attempt_fails_warehouse_def interrupted_warehouse_def no_cursor_warehouse_def
        cursor_close_fails_warehouse_def connection_close_fails_warehouse_def
        healthy_warehouse_def three_queries_def Let_def log_def emit_def sleep_def init_st_def)

lemma positions_simps [simp]:
  "positions [] = []"
  "positions (xs @ ys) = positions xs @ positions ys"
  "positions (ev # t) = (case ev_pos ev of None \<Rightarrow> [] | Some p \<Rightarrow> [p]) @ positions t"
  by (simp_all add: positions_def)

lemma positions_rows [simp]:
  "positions (map (\<lambda>row. EvLog INFO (QueryResult row)) rows) = []"
  by (induction rows) simp_all

lemma positions_member:
  "ev \<in> set t \<Longrightarrow> ev_pos ev = Some p \<Longrightarrow> p \<in> set (positions t)"
  by (induction t) (auto split: option.splits)

lemma stmt_inv_emit:
  assumes "stmt_inv wh n s" and "ev_pos ev = None"
  shows "stmt_inv wh n (emit ev s)"
proof -
  from assms(2) have "\<And>i a q. ev \<noteq> EvExecute i a q" "\<And>i a. ev \<noteq> EvCommit i a"
    by auto
  with assms show ?thesis
    unfolding stmt_inv_def emit_def by simp blast
qed

lemma stmt_inv_log:
  "stmt_inv wh n s \<Longrightarrow> stmt_inv wh n (log lv m s)"
  by (simp add: log_def stmt_inv_emit)

lemma stmt_inv_mono:
  "stmt_inv wh n s \<Longrightarrow> n \<le> m \<Longrightarrow> stmt_inv wh m s"
  by (auto simp add: stmt_inv_def)

lemma attempt_body_inv:
  assumes "stmt_inv wh i s"
  shows "stmt_inv wh i (fst (attempt_body wh qt N i q a s))"
proof (cases "wh_execute wh i a")
  case (Inl e)
  then show ?thesis
    using assms
    by (auto simp add: attempt_body_def Let_def log_def emit_def stmt_inv_def executed_ok_def
          sorted_append)
next
  case (Inr r)
  show ?thesis
  proof (cases r)
    case NoResultSet
    with Inr show ?thesis
      using assms
      by (cases "wh_commit wh i a")
         (auto simp add: attempt_body_def commit_step_def Let_def log_def emit_def stmt_inv_def
            executed_ok_def sorted_append)
  next
    case (ResultSet rows)
    with Inr show ?thesis
      using assms
      by (cases "wh_fetchall wh i a"; cases "wh_commit wh i a")
         (auto simp add: attempt_body_def commit_step_def Let_def log_def emit_def stmt_inv_def
            executed_ok_def sorted_append)
  qed
qed

lemma while_attempts_inv:
  "stmt_inv wh i s \<Longrightarrow> stmt_inv wh i (fst (while_attempts wh qt N d i q a success s))"
proof (induction "if success then 0 else Suc (nat (N + 1 - a))" arbitrary: a success s)
  case 0
  then have "success \<or> \<not> a \<le> N" by (simp split: if_splits)
  then show ?case
    using "0.prems" by (subst while_attempts.simps) auto
next
  case (Suc n)
  then have ns: "\<not> success" and n: "n = nat (N + 1 - a)" by (simp_all split: if_splits)
  show ?case
  proof (cases "a \<le> N")
    case False
    then show ?thesis
      using Suc.prems by (subst while_attempts.simps) simp
  next
    case True
    then have n': "n = Suc (nat (N + 1 - (a + 1)))" using n by simp
    note B = attempt_body_inv [OF Suc.prems, of qt N q a]
    show ?thesis
    proof (cases "snd (attempt_body wh qt N i q a s)")
      case None
      then show ?thesis
        using True ns B by (subst while_attempts.simps) (simp add: Let_def)
    next
      case (Some e)
      have IH: "\<And>s'. stmt_inv wh i s' \<Longrightarrow>
                  stmt_inv wh i (fst (while_attempts wh qt N d i q (a + 1) False s'))"
        using Suc.hyps(1) [of False "a + 1"] n' by simp
      show ?thesis
        by (subst while_attempts.simps)
           (use True ns Some B in
             \<open>simp add: Let_def sleep_def IH stmt_inv_log stmt_inv_emit split: option.splits\<close>)
    qed
  qed
qed

lemma for_queries_inv:
  "stmt_inv wh i s \<Longrightarrow> stmt_inv wh (i + length qs) (fst (for_queries wh qt N d i qs s))"
proof (induction qs arbitrary: i s)
  case Nil
  then show ?case by simp
next
  case (Cons q qs)
  from while_attempts_inv [OF Cons.prems]
  have W: "stmt_inv wh i (fst (while_attempts wh qt N d i q 1 False s))" .
  then have W': "stmt_inv wh (Suc i) (fst (while_attempts wh qt N d i q 1 False s))"
    by (rule stmt_inv_mono) simp
  from Cons.IH [OF W'] W show ?case
    by (auto simp add: Let_def intro: stmt_inv_mono split: option.splits)
qed

lemma run_queries_inv:
  "stmt_inv wh (length queries) (fst (run_queries wh queries config qt N d))"
proof -
  have init: "stmt_inv wh 0 init_st"
    by (simp add: stmt_inv_def init_st_def)
  have set_open: "\<And>s n b. stmt_inv wh n s \<Longrightarrow> stmt_inv wh n (s\<lparr>conn_open := b\<rparr>)"
    by (simp add: stmt_inv_def)
  have handler: "\<And>e s n. stmt_inv wh n s \<Longrightarrow> stmt_inv wh n (fst (outer_handler e s))"
    by (simp add: outer_handler_def stmt_inv_log)
  have s1: "stmt_inv wh 0 (log INFO ConnectedSuccessfully
              (emit EvCursor (emit (EvConnect config 10) init_st\<lparr>conn_open := True\<rparr>)))"
    by (intro stmt_inv_log stmt_inv_emit set_open init) simp_all
  from for_queries_inv [OF s1, of queries qt N d]
  have F: "stmt_inv wh (length queries) (fst (for_queries wh qt N d 0 queries
             (log INFO ConnectedSuccessfully
               (emit EvCursor (emit (EvConnect config 10) init_st\<lparr>conn_open := True\<rparr>)))))"
    by simp
  have s0: "stmt_inv wh (length queries) (emit (EvConnect config 10) init_st)"
    by (intro stmt_inv_emit stmt_inv_mono [OF init]) simp_all
  have s0': "stmt_inv wh (length queries)
               (emit EvCursor (emit (EvConnect config 10) init_st\<lparr>conn_open := True\<rparr>))"
    by (intro stmt_inv_emit set_open stmt_inv_mono [OF init]) simp_all
  show ?thesis
    unfolding run_queries_def Let_def
    by (auto split: option.splits
          intro!: handler stmt_inv_log stmt_inv_emit set_open F s0 s0')
qed

lemma attempt_body_committed:
  "prefix (committed s) (committed (fst (attempt_body wh qt N i q a s)))"
  by (simp add: attempt_body_def commit_step_def Let_def log_def emit_def
        split: sum.splits cursor_result.splits option.splits)

lemma while_attempts_committed:
  "prefix (committed s) (committed (fst (while_attempts wh qt N d i q a success s)))"
proof (induction "if success then 0 else Suc (nat (N + 1 - a))" arbitrary: a success s)
  case 0
  then have "success \<or> \<not> a \<le> N" by (simp split: if_splits)
  then show ?case
    by (subst while_attempts.simps) auto
next
  case (Suc n)
  then have ns: "\<not> success" and n: "n = nat (N + 1 - a)" by (simp_all split: if_splits)
  show ?case
  proof (cases "a \<le> N")
    case False
    then show ?thesis
      by (subst while_attempts.simps) simp
  next
    case True
    then have n': "n = Suc (nat (N + 1 - (a + 1)))" using n by simp
    note B = attempt_body_committed [of s wh qt N i q a]
    have IH: "\<And>s'. prefix (committed s')
                (committed (fst (while_attempts wh qt N d i q (a + 1) False s')))"
      using Suc.hyps(1) [of False "a + 1"] n' by simp
    have step: "\<And>s'. committed s' = committed (fst (attempt_body wh qt N i q a s)) \<Longrightarrow>
        prefix (committed s) (committed (fst (while_attempts wh qt N d i q (a + 1) False s')))"
      using B IH by (metis prefix_order.trans)
    show ?thesis
      by (subst while_attempts.simps)
         (use True ns B in
           \<open>auto simp add: Let_def sleep_def log_def emit_def split: option.splits intro!: step\<close>)
  qed
qed

lemma for_queries_committed:
  "prefix (committed s) (committed (fst (for_queries wh qt N d i qs s)))"
proof (induction qs arbitrary: i s)
  case Nil
  show ?case by simp
next
  case (Cons q qs)
  note W = while_attempts_committed [of s wh qt N d i q 1 False]
  show ?case
    using W Cons.IH [of "fst (while_attempts wh qt N d i q 1 False s)" "Suc i"]
    by (auto simp add: Let_def split: option.splits intro: prefix_order.trans)
qed

lemma attempt_body_executed_ok:
  assumes "executed_ok wh i a" and "wh_commit wh i a = None"
  shows "snd (attempt_body wh qt N i q a s) = None"
    and "committed (fst (attempt_body wh qt N i q a s)) = committed s @ [i]"
  using assms
  by (auto simp add: executed_ok_def attempt_body_def commit_step_def Let_def log_def emit_def
        split: sum.splits cursor_result.splits)

lemma commit_before_later_execute:
  assumes "sorted (positions (xs @ EvExecute k b q # ys))"
    and "EvCommit i a \<in> set (xs @ EvExecute k b q # ys)" and "i < k"
  shows "EvCommit i a \<in> set xs"
proof (rule ccontr)
  assume "EvCommit i a \<notin> set xs"
  with assms(2) have "EvCommit i a \<in> set ys" by simp
  then have "i \<in> set (positions ys)"
    by (rule positions_member) simp
  moreover from assms(1) have "\<forall>p \<in> set (positions ys). k \<le> p"
    by (simp add: sorted_append)
  ultimately show False using assms(3) by auto
qed

lemma is_row_log_iff: "is_row_log ev = (\<exists>row. ev = EvLog INFO (QueryResult row))"
  by (cases ev rule: is_row_log.cases) simp_all

lemma until_commit_append: "until_commit i a t \<Longrightarrow> until_commit i a (t @ u)"
  by (induction t) auto

lemma back_to_execute_append: "back_to_execute i a t \<Longrightarrow> back_to_execute i a (t @ u)"
  by (induction t) auto

lemma is_execute_at_iff: "is_execute_at i a ev = (\<exists>q. ev = EvExecute i a q)"
  by (cases ev) auto

lemma commits_follow_append:
  "commits_follow wh t \<Longrightarrow> commits_follow wh u \<Longrightarrow> commits_follow wh (t @ u)"
  by (induction wh t rule: commits_follow.induct) (auto intro: until_commit_append)

lemma executes_precede_append:
  "executes_precede t \<Longrightarrow> executes_precede u \<Longrightarrow> executes_precede (t @ u)"
  by (induction t rule: executes_precede.induct) (auto intro: back_to_execute_append)

lemma block_Nil [simp]: "block wh []"
  by (simp add: block_def)

lemma block_append: "block wh t \<Longrightarrow> block wh u \<Longrightarrow> block wh (t @ u)"
  by (simp add: block_def commits_follow_append executes_precede_append)

lemma block_other:
  "ev_pos ev = None \<Longrightarrow> block wh [ev]"
  by (cases ev) (simp_all add: block_def)

lemma until_commit_decomp:
  "until_commit i a ys \<Longrightarrow>
     \<exists>mid rest. ys = mid @ EvCommit i a # rest
       \<and> (\<forall>ev \<in> set mid. ev = EvFetchall i a \<or> (\<exists>row. ev = EvLog INFO (QueryResult row)))"
proof (induction ys)
  case Nil
  then show ?case by simp
next
  case (Cons ev ys)
  show ?case
  proof (cases "ev = EvCommit i a")
    case True
    then have "ev # ys = [] @ EvCommit i a # ys" by simp
    then show ?thesis by (metis empty_iff list.set(1))
  next
    case False
    with Cons.prems have ev: "ev = EvFetchall i a \<or> is_row_log ev" and "until_commit i a ys"
      by auto
    with Cons.IH obtain mid rest where m: "ys = mid @ EvCommit i a # rest"
      "\<forall>ev \<in> set mid. ev = EvFetchall i a \<or> (\<exists>row. ev = EvLog INFO (QueryResult row))"
      by blast
    from m(1) have "ev # ys = (ev # mid) @ EvCommit i a # rest" by simp
    moreover from m(2) ev
    have "\<forall>e \<in> set (ev # mid). e = EvFetchall i a \<or> (\<exists>row. e = EvLog INFO (QueryResult row))"
      by (auto simp add: is_row_log_iff)
    ultimately show ?thesis by blast
  qed
qed

lemma back_to_execute_decomp:
  "back_to_execute i a r \<Longrightarrow>
     \<exists>mid q rest. r = mid @ EvExecute i a q # rest
       \<and> (\<forall>ev \<in> set mid. ev = EvFetchall i a \<or> (\<exists>row. ev = EvLog INFO (QueryResult row)))"
proof (induction r)
  case Nil
  then show ?case by simp
next
  case (Cons ev r)
  show ?case
  proof (cases "is_execute_at i a ev")
    case True
    then obtain q where "ev = EvExecute i a q" by (auto simp add: is_execute_at_iff)
    then have "ev # r = [] @ EvExecute i a q # r" by simp
    then show ?thesis by (metis empty_iff list.set(1))
  next
    case False
    with Cons.prems have ev: "ev = EvFetchall i a \<or> is_row_log ev" and "back_to_execute i a r"
      by auto
    with Cons.IH obtain mid q rest where m: "r = mid @ EvExecute i a q # rest"
      "\<forall>ev \<in> set mid. ev = EvFetchall i a \<or> (\<exists>row. ev = EvLog INFO (QueryResult row))"
      by blast
    from m(1) have "ev # r = (ev # mid) @ EvExecute i a q # rest" by simp
    moreover from m(2) ev
    have "\<forall>e \<in> set (ev # mid). e = EvFetchall i a \<or> (\<exists>row. e = EvLog INFO (QueryResult row))"
      by (auto simp add: is_row_log_iff)
    ultimately show ?thesis by blast
  qed
qed

lemma commits_follow_decomp:
  "commits_follow wh t \<Longrightarrow> t = xs @ EvExecute i a q # ys \<Longrightarrow> executed_ok wh i a \<Longrightarrow>
     until_commit i a ys"
proof (induction xs arbitrary: t)
  case Nil
  then show ?case by simp
next
  case (Cons x xs)
  from Cons.prems(1,2) have "commits_follow wh (xs @ EvExecute i a q # ys)"
    by (cases x) simp_all
  from Cons.IH [OF this refl Cons.prems(3)] show ?case .
qed

lemma executes_precede_decomp:
  "executes_precede r \<Longrightarrow> r = ys @ EvCommit i a # xs \<Longrightarrow> back_to_execute i a xs"
proof (induction ys arbitrary: r)
  case Nil
  then show ?case by simp
next
  case (Cons y ys)
  from Cons.prems have "executes_precede (ys @ EvCommit i a # xs)"
    by (cases y) simp_all
  from Cons.IH [OF this refl] show ?case .
qed

lemma block_commit_follows:
  assumes "block wh t" and "t = xs @ EvExecute i a q # ys" and "executed_ok wh i a"
  shows "\<exists>mid rest. ys = mid @ EvCommit i a # rest
       \<and> (\<forall>ev \<in> set mid. ev = EvFetchall i a \<or> (\<exists>row. ev = EvLog INFO (QueryResult row)))"
proof -
  from assms(1) have "commits_follow wh t" by (simp add: block_def)
  from commits_follow_decomp [OF this assms(2,3)] show ?thesis
    by (rule until_commit_decomp)
qed

lemma block_execute_precedes:
  assumes "block wh t" and "t = xs @ EvCommit i a # ys"
  shows "\<exists>pre q mid. xs = pre @ EvExecute i a q # mid
       \<and> (\<forall>ev \<in> set mid. ev = EvFetchall i a \<or> (\<exists>row. ev = EvLog INFO (QueryResult row)))"
proof -
  from assms have "executes_precede (rev ys @ EvCommit i a # rev xs)"
    by (simp add: block_def)
  then have "back_to_execute i a (rev xs)"
    by (rule executes_precede_decomp) simp
  from back_to_execute_decomp [OF this] obtain mid q rest where
    m: "rev xs = mid @ EvExecute i a q # rest"
    "\<forall>ev \<in> set mid. ev = EvFetchall i a \<or> (\<exists>row. ev = EvLog INFO (QueryResult row))"
    by blast
  from m(1) have "xs = rev rest @ EvExecute i a q # rev mid"
    by (metis rev_append rev.simps(2) rev_rev_ident append.assoc append_Cons append_Nil)
  with m(2) show ?thesis
    by (intro exI [of _ "rev rest"] exI [of _ q] exI [of _ "rev mid"]) simp
qed

lemma until_commit_rows [simp]:
  "until_commit i a (map (\<lambda>row. EvLog INFO (QueryResult row)) rows @ EvCommit i a # rest)"
  by (induction rows) simp_all

lemma back_to_execute_rows [simp]:
  "back_to_execute i a (rev (map (\<lambda>row. EvLog INFO (QueryResult row)) rows) @ t)
     = back_to_execute i a t"
  by (induction rows arbitrary: t) (simp_all add: back_to_execute_append)

lemma commits_follow_rows [simp]:
  "commits_follow wh (map (\<lambda>row. EvLog INFO (QueryResult row)) rows @ t) = commits_follow wh t"
  by (induction rows) simp_all

lemma executes_precede_rows [simp]:
  "executes_precede (rev (map (\<lambda>row. EvLog INFO (QueryResult row)) rows) @ t)
     = executes_precede t"
proof (induction rows arbitrary: t)
  case Nil
  show ?case by simp
next
  case (Cons row rows)
  have "executes_precede (rev (map (\<lambda>row. EvLog INFO (QueryResult row)) rows)
          @ EvLog INFO (QueryResult row) # t) = executes_precede (EvLog INFO (QueryResult row) # t)"
    by (rule Cons.IH)
  then show ?case by simp
qed

lemma attempt_body_block:
  "\<exists>u. trace (fst (attempt_body wh qt N i q a s)) = trace s @ u \<and> block wh u"
proof (cases "wh_execute wh i a")
  case (Inl e)
  then show ?thesis
    by (simp add: attempt_body_def Let_def log_def emit_def block_def executed_ok_def)
next
  case (Inr r)
  show ?thesis
  proof (cases r)
    case NoResultSet
    with Inr show ?thesis
      by (cases "wh_commit wh i a")
         (simp_all add: attempt_body_def commit_step_def Let_def log_def emit_def block_def
            executed_ok_def)
  next
    case (ResultSet rows)
    with Inr show ?thesis
      by (cases "wh_fetchall wh i a"; cases "wh_commit wh i a")
         (simp_all add: attempt_body_def commit_step_def Let_def log_def emit_def block_def
            executed_ok_def)
  qed
qed

lemma while_attempts_block:
  "\<exists>u. trace (fst (while_attempts wh qt N d i q a success s)) = trace s @ u \<and> block wh u"
proof (induction "if success then 0 else Suc (nat (N + 1 - a))" arbitrary: a success s)
  case 0
  then have "success \<or> \<not> a \<le> N" by (simp split: if_splits)
  then show ?case
    by (subst while_attempts.simps) auto
next
  case (Suc n)
  then have ns: "\<not> success" and n: "n = nat (N + 1 - a)" by (simp_all split: if_splits)
  show ?case
  proof (cases "a \<le> N")
    case False
    then show ?thesis
      by (subst while_attempts.simps) simp
  next
    case True
    then have n': "n = Suc (nat (N + 1 - (a + 1)))" using n by simp
    from attempt_body_block [of wh qt N i q a s] obtain u where
      u: "trace (fst (attempt_body wh qt N i q a s)) = trace s @ u" "block wh u"
      by blast
    have IH: "\<And>s'. \<exists>v. trace (fst (while_attempts wh qt N d i q (a + 1) False s')) = trace s' @ v
                \<and> block wh v"
      using Suc.hyps(1) [of False "a + 1"] n' by simp
    have step: "\<And>(s'::st) w. trace s' = trace s @ u @ w \<Longrightarrow> block wh w \<Longrightarrow>
        \<exists>v. trace (fst (while_attempts wh qt N d i q (a + 1) False s')) = trace s @ v \<and> block wh v"
    proof -
      fix s' :: st and w
      assume s': "trace s' = trace s @ u @ w" and w: "block wh w"
      from IH [of s'] obtain v where
        v: "trace (fst (while_attempts wh qt N d i q (a + 1) False s')) = trace s' @ v" "block wh v"
        by blast
      from v(1) s' have "trace (fst (while_attempts wh qt N d i q (a + 1) False s'))
          = trace s @ (u @ w @ v)" by simp
      moreover from u(2) w v(2) have "block wh (u @ w @ v)"
        by (intro block_append)
      ultimately show "\<exists>v. trace (fst (while_attempts wh qt N d i q (a + 1) False s'))
          = trace s @ v \<and> block wh v" by blast
    qed
    have b2: "\<And>x y. ev_pos x = None \<Longrightarrow> ev_pos y = None \<Longrightarrow> block wh [x, y]"
      using block_append [OF block_other block_other] by fastforce
    show ?thesis
    proof (cases "snd (attempt_body wh qt N i q a s)")
      case None
      with True ns u show ?thesis
        by (subst while_attempts.simps) (auto simp add: Let_def)
    next
      case (Some e)
      show ?thesis
      proof (cases "is_psycopg2_Error e")
        case False
        with True ns u Some show ?thesis
          by (subst while_attempts.simps) (auto simp add: Let_def)
      next
        case db: True
        show ?thesis
        proof (cases "a + 1 \<le> N")
          case False
          have "\<exists>v. trace (fst (while_attempts wh qt N d i q (a + 1) False
                     (log ERROR (AllAttemptsFailed qt)
                        (log WARNING (ErrorExecuting qt a e) (fst (attempt_body wh qt N i q a s))))))
                   = trace s @ v \<and> block wh v"
            by (rule step [where w = "[EvLog WARNING (ErrorExecuting qt a e),
                                       EvLog ERROR (AllAttemptsFailed qt)]"])
               (simp_all add: u log_def emit_def b2)
          with True ns Some db False show ?thesis
            by (subst while_attempts.simps) (simp add: Let_def)
        next
          case le: True
          show ?thesis
          proof (cases "wh_sleep wh i a")
            case None
            have "\<exists>v. trace (fst (while_attempts wh qt N d i q (a + 1) False
                     (fst (sleep None d (log INFO (RetryingIn d)
                        (log WARNING (ErrorExecuting qt a e) (fst (attempt_body wh qt N i q a s))))))))
                   = trace s @ v \<and> block wh v"
              by (rule step [where w = "[EvLog WARNING (ErrorExecuting qt a e),
                                         EvLog INFO (RetryingIn d), EvSleep d]"])
                 (simp_all add: u log_def emit_def sleep_def block_def)
            with True ns Some db le None show ?thesis
              by (subst while_attempts.simps) (simp add: Let_def sleep_def)
          next
            case (Some e')
            have "block wh (u @ [EvLog WARNING (ErrorExecuting qt a e),
                                 EvLog INFO (RetryingIn d), EvSleep d])"
              by (intro block_append u) (simp add: block_def)
            with True ns \<open>snd (attempt_body wh qt N i q a s) = Some e\<close> db le Some u(1) show ?thesis
              by (subst while_attempts.simps)
                 (auto simp add: Let_def sleep_def log_def emit_def)
          qed
        qed
      qed
    qed
  qed
qed

lemma for_queries_block:
  "\<exists>u. trace (fst (for_queries wh qt N d i qs s)) = trace s @ u \<and> block wh u"
proof (induction qs arbitrary: i s)
  case Nil
  show ?case by simp
next
  case (Cons q qs)
  from while_attempts_block [of wh qt N d i q 1 False s] obtain u where
    u: "trace (fst (while_attempts wh qt N d i q 1 False s)) = trace s @ u" "block wh u"
    by blast
  from Cons.IH [of "Suc i" "fst (while_attempts wh qt N d i q 1 False s)"] obtain v where
    v: "trace (fst (for_queries wh qt N d (Suc i) qs (fst (while_attempts wh qt N d i q 1 False s))))
          = trace (fst (while_attempts wh qt N d i q 1 False s)) @ v" "block wh v"
    by blast
  from u v have "block wh (u @ v)" by (intro block_append)
  with u v show ?case
    by (cases "snd (while_attempts wh qt N d i q 1 False s)") (auto simp add: Let_def)
qed

lemma block_emit:
  "block wh (trace s) \<Longrightarrow> ev_pos ev = None \<Longrightarrow> block wh (trace (emit ev s))"
  by (simp add: emit_def block_append block_other)

lemma block_log: "block wh (trace s) \<Longrightarrow> block wh (trace (log lv m s))"
  by (simp add: log_def block_emit)

lemma block_for_queries:
  "block wh (trace s) \<Longrightarrow> block wh (trace (fst (for_queries wh qt N d i qs s)))"
  using for_queries_block [of wh qt N d i qs s] by (auto intro: block_append)

lemma run_queries_block: "block wh (trace (fst (run_queries wh queries config qt N d)))"
proof -
  have init: "block wh (trace init_st)"
    by (simp add: init_st_def)
  have set_open: "\<And>s b. block wh (trace s) \<Longrightarrow> block wh (trace (s\<lparr>conn_open := b\<rparr>))"
    by simp
  have handler: "\<And>e s. block wh (trace s) \<Longrightarrow> block wh (trace (fst (outer_handler e s)))"
    by (simp add: outer_handler_def block_log)
  show ?thesis
    unfolding run_queries_def Let_def
    by (auto split: option.splits
          intro!: handler block_log block_emit set_open block_for_queries init)
qed

text \<open>
  Claim C7. In every run of \<open>run_queries\<close>, whatever the warehouse answers: after the
  \<open>cur.execute\<close> of an attempt that executed, only the \<open>cur.fetchall\<close> of that attempt and
  the log records of its rows come before its \<open>conn.commit()\<close>, so that the commit is
  issued after the statement and before anything else is attempted; every commit in the
  trace stands in this way behind the \<open>cur.execute\<close> of its own attempt; the commit of a
  statement comes before any \<open>cur.execute\<close> of a later statement of the batch; a statement
  whose commit returned is still recorded as committed at the end, whatever later
  statements do, and running further statements only ever extends the list of committed
  ones; and an attempt that executed and whose commit returned counts as success (the loop
  makes no further attempt), with or without a result set.
\<close>

theorem run_queries_commit_per_statement:
  "(\<forall>i a q. EvExecute i a q \<in> set (trace (fst (run_queries wh queries config query_type retries delay)))
        \<and> executed_ok wh i a \<longrightarrow>
        EvCommit i a \<in> set (trace (fst (run_queries wh queries config query_type retries delay))))
   \<and> (\<forall>xs ys i a k b q.
        trace (fst (run_queries wh queries config query_type retries delay)) = xs @ EvExecute k b q # ys
        \<and> EvCommit i a \<in> set (trace (fst (run_queries wh queries config query_type retries delay)))
        \<and> i < k \<longrightarrow> EvCommit i a \<in> set xs)
   \<and> (\<forall>i a. EvCommit i a \<in> set (trace (fst (run_queries wh queries config query_type retries delay)))
        \<and> wh_commit wh i a = None \<longrightarrow>
        i \<in> set (committed (fst (run_queries wh queries config query_type retries delay))))
   \<and> (\<forall>s i rest. prefix (committed s)
        (committed (fst (for_queries wh query_type retries delay i rest s))))
   \<and> (\<forall>s i a q. executed_ok wh i a \<and> wh_commit wh i a = None \<and> a \<le> retries \<longrightarrow>
        committed (fst (attempt_body wh query_type retries i q a s)) = committed s @ [i]
        \<and> while_attempts wh query_type retries delay i q a False s
            = (fst (attempt_body wh query_type retries i q a s), None))
   \<and> (\<forall>xs ys i a q.
        trace (fst (run_queries wh queries config query_type retries delay)) = xs @ EvExecute i a q # ys
        \<and> executed_ok wh i a \<longrightarrow>
        (\<exists>mid rest. ys = mid @ EvCommit i a # rest
           \<and> (\<forall>ev \<in> set mid. ev = EvFetchall i a \<or> (\<exists>row. ev = EvLog INFO (QueryResult row)))))
   \<and> (\<forall>xs ys i a.
        trace (fst (run_queries wh queries config query_type retries delay)) = xs @ EvCommit i a # ys
        \<longrightarrow>
        (\<exists>pre q mid. xs = pre @ EvExecute i a q # mid
           \<and> (\<forall>ev \<in> set mid. ev = EvFetchall i a \<or> (\<exists>row. ev = EvLog INFO (QueryResult row)))))"
proof -
  note I = run_queries_inv [of wh queries config query_type retries delay]
  note K = run_queries_block [of wh queries config query_type retries delay]
  have A: "\<forall>i a q. EvExecute i a q \<in> set (trace (fst (run_queries wh queries config query_type retries delay)))
        \<and> executed_ok wh i a \<longrightarrow>
        EvCommit i a \<in> set (trace (fst (run_queries wh queries config query_type retries delay)))"
    using I unfolding stmt_inv_def by blast
  have B: "\<forall>i a. EvCommit i a \<in> set (trace (fst (run_queries wh queries config query_type retries delay)))
        \<and> wh_commit wh i a = None \<longrightarrow>
        i \<in> set (committed (fst (run_queries wh queries config query_type retries delay)))"
    using I unfolding stmt_inv_def by blast
  have S: "sorted (positions (trace (fst (run_queries wh queries config query_type retries delay))))"
    using I unfolding stmt_inv_def by blast
  have C: "\<forall>xs ys i a k b q.
        trace (fst (run_queries wh queries config query_type retries delay)) = xs @ EvExecute k b q # ys
        \<and> EvCommit i a \<in> set (trace (fst (run_queries wh queries config query_type retries delay)))
        \<and> i < k \<longrightarrow> EvCommit i a \<in> set xs"
    using S commit_before_later_execute by metis
  have D: "\<forall>s i rest. prefix (committed s)
        (committed (fst (for_queries wh query_type retries delay i rest s)))"
    by (simp add: for_queries_committed)
  have E: "\<forall>s i a q. executed_ok wh i a \<and> wh_commit wh i a = None \<and> a \<le> retries \<longrightarrow>
        committed (fst (attempt_body wh query_type retries i q a s)) = committed s @ [i]
        \<and> while_attempts wh query_type retries delay i q a False s
            = (fst (attempt_body wh query_type retries i q a s), None)"
  proof (intro allI impI conjI)
    fix s i a q
    assume h: "executed_ok wh i a \<and> wh_commit wh i a = None \<and> a \<le> retries"
    then show "committed (fst (attempt_body wh query_type retries i q a s)) = committed s @ [i]"
      by (simp add: attempt_body_executed_ok)
    from h have "snd (attempt_body wh query_type retries i q a s) = None"
      by (simp add: attempt_body_executed_ok)
    with h show "while_attempts wh query_type retries delay i q a False s
            = (fst (attempt_body wh query_type retries i q a s), None)"
      by (subst while_attempts.simps) (simp add: Let_def)
  qed
  have F: "\<forall>xs ys i a q.
        trace (fst (run_queries wh queries config query_type retries delay)) = xs @ EvExecute i a q # ys
        \<and> executed_ok wh i a \<longrightarrow>
        (\<exists>mid rest. ys = mid @ EvCommit i a # rest
           \<and> (\<forall>ev \<in> set mid. ev = EvFetchall i a \<or> (\<exists>row. ev = EvLog INFO (QueryResult row))))"
    using block_commit_follows [OF K] by blast
  have G: "\<forall>xs ys i a.
        trace (fst (run_queries wh queries config query_type retries delay)) = xs @ EvCommit i a # ys
        \<longrightarrow>
        (\<exists>pre q mid. xs = pre @ EvExecute i a q # mid
           \<and> (\<forall>ev \<in> set mid. ev = EvFetchall i a \<or> (\<exists>row. ev = EvLog INFO (QueryResult row))))"
    using block_execute_precedes [OF K] by blast
  from A C B D E F G show ?thesis by blast
qed

theorem run_queries_commit_per_statement_witness:
  "EvExecute 0 1 ''DROP TABLE IF EXISTS a;''
      \<in> set (trace (fst (run_queries second_fails_warehouse three_queries cfg0 ''DROP'' 3 5)))
   \<and> executed_ok second_fails_warehouse 0 1
   \<and> EvCommit 0 1 \<in> set (trace (fst (run_queries second_fails_warehouse three_queries cfg0 ''DROP'' 3 5)))
   \<and> 0 \<in> set (committed (fst (run_queries second_fails_warehouse three_queries cfg0 ''DROP'' 3 5)))"
proof -
  have ex: "EvExecute 0 1 ''DROP TABLE IF EXISTS a;''
      \<in> set (trace (fst (run_queries second_fails_warehouse three_queries cfg0 ''DROP'' 3 5)))"
    by (simp add: run_queries_def while_attempts.simps attempt_body_def commit_step_def
          outer_handler_def second_fails_warehouse_def three_queries_def
          Let_def log_def emit_def sleep_def init_st_def)
  have ok: "executed_ok second_fails_warehouse 0 1"
    by (simp add: executed_ok_def second_fails_warehouse_def)
  have cm: "wh_commit second_fails_warehouse 0 1 = None"
    by (simp add: second_fails_warehouse_def)
  note T = run_queries_commit_per_statement
             [where wh = second_fails_warehouse and queries = three_queries and config = cfg0
                and query_type = "''DROP''" and retries = 3 and delay = 5]
  note A = T [THEN conjunct1]
  note B = T [THEN conjunct2, THEN conjunct2, THEN conjunct1]
  from A ex ok have c: "EvCommit 0 1
      \<in> set (trace (fst (run_queries second_fails_warehouse three_queries cfg0 ''DROP'' 3 5)))"
    by blast
  from B c cm have "0 \<in> set (committed (fst (run_queries second_fails_warehouse three_queries cfg0 ''DROP'' 3 5)))"
    by blast
  with ex ok c show ?thesis by simp
qed

section \<open>Properties of the decommissioner\<close>

lemma delete_each_entries:
  assumes "\<forall>c e. raises cl c = Some e \<longrightarrow> is_Exception e"
  shows "\<exists>t' r. delete_each cl gs t = (t @ t', r) \<and> filter step_entry t' = []
           \<and> (\<forall>e. r = Inl e \<longrightarrow> is_Exception e)"
proof (induction gs arbitrary: t)
  case Nil
  show ?case by (simp add: return_def)
next
  case (Cons g gs)
  show ?case
  proof (cases "raises cl (DeleteSecurityGroup g)")
    case None
    from Cons.IH [of "t @ [AwsCall (DeleteSecurityGroup g)]"] obtain t' r where
      "delete_each cl gs (t @ [AwsCall (DeleteSecurityGroup g)])
         = ((t @ [AwsCall (DeleteSecurityGroup g)]) @ t', r)"
      "filter step_entry t' = []" "\<forall>e. r = Inl e \<longrightarrow> is_Exception e"
      by blast
    with None show ?thesis
      by (rule_tac x = "AwsCall (DeleteSecurityGroup g) # t'" in exI)
         (simp add: then_do_def call_def)
  next
    case (Some e)
    with assms have "is_Exception e" by blast
    with Some show ?thesis
      by (rule_tac x = "[AwsCall (DeleteSecurityGroup g)]" in exI)
         (simp add: then_do_def call_def)
  qed
qed

lemma delete_redshift_cluster_entries:
  assumes "\<forall>c e. raises cl c = Some e \<longrightarrow> is_Exception e"
  shows "\<exists>t'. delete_redshift_cluster cl t = (t @ t', Inr ())
           \<and> filter step_entry t' = [AwsCall DeleteCluster]"
  using assms
  by (auto simp add: delete_redshift_cluster_def then_do_def try_except_Exception_def
        call_def aws_log_def split: option.splits)

lemma delete_subnet_group_entries:
  assumes "\<forall>c e. raises cl c = Some e \<longrightarrow> is_Exception e"
  shows "\<exists>t'. delete_subnet_group cl t = (t @ t', Inr ())
           \<and> filter step_entry t' = [AwsCall DeleteClusterSubnetGroup]"
  using assms
  by (auto simp add: delete_subnet_group_def then_do_def try_except_Exception_def
        call_def aws_log_def split: option.splits)

lemma delete_iam_role_entries:
  assumes "\<forall>c e. raises cl c = Some e \<longrightarrow> is_Exception e"
  shows "\<exists>t'. delete_iam_role cl t = (t @ t', Inr ())
           \<and> filter step_entry t' = [AwsCall DetachRolePolicy]"
  using assms
  by (auto simp add: delete_iam_role_def then_do_def try_except_Exception_def
        call_def aws_log_def split: option.splits)

lemma delete_security_group_entries:
  assumes "\<forall>c e. raises cl c = Some e \<longrightarrow> is_Exception e"
  shows "\<exists>t'. delete_security_group cl cfg t = (t @ t', Inr ())
           \<and> filter step_entry t' = [AwsCall (DescribeSecurityGroups [SECURITY_GROUP_NAME cfg])]"
proof (cases "raises cl (DescribeSecurityGroups [SECURITY_GROUP_NAME cfg])")
  case (Some e)
  with assms have "is_Exception e" by blast
  with Some show ?thesis
    by (simp add: delete_security_group_def then_do_def try_except_Exception_def
          call_def aws_log_def)
next
  case None
  from delete_each_entries [OF assms, of "security_groups cl [SECURITY_GROUP_NAME cfg]"
         "t @ [AwsLog INFO DeletingSecurityGroup,
               AwsCall (DescribeSecurityGroups [SECURITY_GROUP_NAME cfg])]"]
  obtain t' r where d:
    "delete_each cl (security_groups cl [SECURITY_GROUP_NAME cfg])
       (t @ [AwsLog INFO DeletingSecurityGroup,
             AwsCall (DescribeSecurityGroups [SECURITY_GROUP_NAME cfg])])
     = ((t @ [AwsLog INFO DeletingSecurityGroup,
              AwsCall (DescribeSecurityGroups [SECURITY_GROUP_NAME cfg])]) @ t', r)"
    "filter step_entry t' = []" "\<forall>e. r = Inl e \<longrightarrow> is_Exception e"
    by blast
  show ?thesis
    using None d
    by (cases r)
       (simp_all add: delete_security_group_def then_do_def try_except_Exception_def
          call_def aws_log_def)
qed

text \<open>
  Claim C3. Whatever the control plane does, as long as what its calls raise are
  \<open>Exception\<close>s (the class each step catches), and so in particular when every one of
  the four deletion steps raises: \<open>teardown\<close> enters each step exactly once, in the order
  delete cluster, delete subnet group, delete IAM role, delete security group, and returns
  normally.
\<close>

theorem teardown_attempts_every_step:
  assumes "\<forall>c e. raises cl c = Some e \<longrightarrow> is_Exception e"
  shows "snd (teardown cl cfg []) = Inr ()
       \<and> filter step_entry (fst (teardown cl cfg []))
           = [AwsCall DeleteCluster, AwsCall DeleteClusterSubnetGroup, AwsCall DetachRolePolicy,
              AwsCall (DescribeSecurityGroups [SECURITY_GROUP_NAME cfg])]"
proof -
  from delete_redshift_cluster_entries [OF assms, of "[]"] obtain t1 where
    1: "delete_redshift_cluster cl [] = (t1, Inr ())" "filter step_entry t1 = [AwsCall DeleteCluster]"
    by auto
  from delete_subnet_group_entries [OF assms, of t1] obtain t2 where
    2: "delete_subnet_group cl t1 = (t1 @ t2, Inr ())"
       "filter step_entry t2 = [AwsCall DeleteClusterSubnetGroup]"
    by auto
  from delete_iam_role_entries [OF assms, of "t1 @ t2"] obtain t3 where
    3: "delete_iam_role cl (t1 @ t2) = ((t1 @ t2) @ t3, Inr ())"
       "filter step_entry t3 = [AwsCall DetachRolePolicy]"
    by auto
  from delete_security_group_entries [OF assms, of cfg "(t1 @ t2) @ t3"] obtain t4 where
    4: "delete_security_group cl cfg ((t1 @ t2) @ t3) = (((t1 @ t2) @ t3) @ t4, Inr ())"
       "filter step_entry t4 = [AwsCall (DescribeSecurityGroups [SECURITY_GROUP_NAME cfg])]"
    by auto
  show ?thesis
    using 1 2 3 4 by (simp add: teardown_def then_do_def aws_log_def)
qed

theorem teardown_attempts_every_step_witness:
  "teardown failing_cloud dwh [] =
     ([AwsLog INFO DeletingCluster, AwsCall DeleteCluster,
       AwsLog WARNING ErrorClusterDeletion, AwsLog WARNING (ErrorDescription ClientError),
       AwsLog INFO DeletingSubnetGroup, AwsCall DeleteClusterSubnetGroup,
       AwsLog WARNING ErrorSubnetGroupDeletion, AwsLog WARNING (ErrorDescription ClientError),
       AwsLog INFO DeletingIamRole, AwsCall DetachRolePolicy,
       AwsLog WARNING ErrorIamRoleDeletion, AwsLog WARNING (ErrorDescription ClientError),
       AwsLog INFO DeletingSecurityGroup, AwsCall (DescribeSecurityGroups [''redshift-sg'']),
       AwsLog WARNING ErrorSecurityGroupDeletion, AwsLog WARNING (ErrorDescription ClientError),
       AwsLog INFO TeardownComplete], Inr ())
   \<and> filter step_entry (fst (teardown failing_cloud dwh []))
       = [AwsCall DeleteCluster, AwsCall DeleteClusterSubnetGroup, AwsCall DetachRolePolicy,
          AwsCall (DescribeSecurityGroups [''redshift-sg''])]"
proof -
  have ex: "\<forall>c e. raises failing_cloud c = Some e \<longrightarrow> is_Exception e"
    by (simp add: failing_cloud_def)
  have run: "teardown failing_cloud dwh [] =
     ([AwsLog INFO DeletingCluster, AwsCall DeleteCluster,
       AwsLog WARNING ErrorClusterDeletion, AwsLog WARNING (ErrorDescription ClientError),
       AwsLog INFO DeletingSubnetGroup, AwsCall DeleteClusterSubnetGroup,
       AwsLog WARNING ErrorSubnetGroupDeletion, AwsLog WARNING (ErrorDescription ClientError),
       AwsLog INFO DeletingIamRole, AwsCall DetachRolePolicy,
       AwsLog WARNING ErrorIamRoleDeletion, AwsLog WARNING (ErrorDescription ClientError),
       AwsLog INFO DeletingSecurityGroup, AwsCall (DescribeSecurityGroups [''redshift-sg'']),
       AwsLog WARNING ErrorSecurityGroupDeletion, AwsLog WARNING (ErrorDescription ClientError),
       AwsLog INFO TeardownComplete], Inr ())"
    by (simp add: teardown_def delete_redshift_cluster_def delete_subnet_group_def
          delete_iam_role_def delete_security_group_def then_do_def try_except_Exception_def
          call_def aws_log_def failing_cloud_def dwh_def)
  from teardown_attempts_every_step [OF ex, of dwh]
  have "filter step_entry (fst (teardown failing_cloud dwh []))
       = [AwsCall DeleteCluster, AwsCall DeleteClusterSubnetGroup, AwsCall DetachRolePolicy,
          AwsCall (DescribeSecurityGroups [''redshift-sg''])]"
    by (simp add: dwh_def)
  with run show ?thesis by simp
qed

section \<open>Properties of the provisioner\<close>

lemma then_do_call:
  "then_do (call cl c) f t =
     (case raises cl c of Some e \<Rightarrow> (t @ [AwsCall c], Inl e) | None \<Rightarrow> f () (t @ [AwsCall c]))"
  by (simp add: then_do_def call_def split: option.splits)

lemma then_do_aws_log:
  "then_do (aws_log lv m) f t = f () (t @ [AwsLog lv m])"
  by (simp add: then_do_def aws_log_def)

lemma then_do_first_of:
  "then_do (first_of xs) f t = (case xs of [] \<Rightarrow> (t, Inl IndexError) | x # _ \<Rightarrow> f x t)"
  by (simp add: then_do_def first_of_def raise_def return_def split: list.splits)

lemma then_do_return: "then_do (return v) f t = f v t"
  by (simp add: then_do_def return_def)

lemma then_do_raise: "then_do (raise e) f t = (t, Inl e)"
  by (simp add: then_do_def raise_def)

lemma then_do_settle: "then_do settle_sleep f t = f () (t @ [AwsSleep 15])"
  by (simp add: then_do_def settle_sleep_def)

lemma then_do_assoc:
  "then_do (then_do m f) g = then_do m (\<lambda>v. then_do (f v) g)"
  by (rule ext) (simp add: then_do_def split: prod.splits sum.splits)

lemmas setup_unfold =
  setup_fn_def create_iam_role_def create_security_group_def create_subnet_group_def
  launch_redshift_cluster_def then_do_assoc then_do_call then_do_aws_log then_do_first_of
  then_do_return then_do_raise then_do_settle

lemma setup_order_prefix: "prefix (operations (fst (setup_fn cl cfg []))) setup_order"
  by (simp add: setup_unfold operations_def setup_order_def return_def
        split: option.splits list.splits)



lemma fail_stop_then_do:
  assumes "fail_stop cl m" and "\<And>v. fail_stop cl (f v)"
  shows "fail_stop cl (then_do m f)"
  unfolding fail_stop_def
proof
  fix t
  from assms(1) obtain d1 where d1: "fst (m t) = t @ d1"
    "\<forall>c e. AwsCall c \<in> set d1 \<and> raises cl c = Some e \<longrightarrow>
       snd (m t) = Inl e \<and> last (fst (m t)) = AwsCall c"
    unfolding fail_stop_def by blast
  show "\<exists>d. fst (then_do m f t) = t @ d
         \<and> (\<forall>c e. AwsCall c \<in> set d \<and> raises cl c = Some e \<longrightarrow>
               snd (then_do m f t) = Inl e \<and> last (fst (then_do m f t)) = AwsCall c)"
  proof (cases "snd (m t)")
    case (Inl e)
    then have "fst (then_do m f t) = fst (m t)" "snd (then_do m f t) = Inl e"
      by (cases "m t"; simp add: then_do_def)+
    with d1 Inl show ?thesis by auto
  next
    case (Inr v)
    then have td: "then_do m f t = f v (t @ d1)"
      using d1(1) by (cases "m t") (simp add: then_do_def)
    from assms(2) [of v] obtain d2 where d2: "fst (f v (t @ d1)) = (t @ d1) @ d2"
      "\<forall>c e. AwsCall c \<in> set d2 \<and> raises cl c = Some e \<longrightarrow>
         snd (f v (t @ d1)) = Inl e \<and> last (fst (f v (t @ d1))) = AwsCall c"
      unfolding fail_stop_def by blast
    have none: "\<And>c e. AwsCall c \<in> set d1 \<Longrightarrow> raises cl c \<noteq> Some e"
      using d1(2) Inr by auto
    show ?thesis
    proof (intro exI [of _ "d1 @ d2"] conjI allI impI)
      show "fst (then_do m f t) = t @ d1 @ d2"
        using td d2(1) by simp
    next
      fix c e
      assume h: "AwsCall c \<in> set (d1 @ d2) \<and> raises cl c = Some e"
      with none have "AwsCall c \<in> set d2" by auto
      with h d2(2) have "snd (f v (t @ d1)) = Inl e \<and> last (fst (f v (t @ d1))) = AwsCall c"
        by blast
      then show "snd (then_do m f t) = Inl e" "last (fst (then_do m f t)) = AwsCall c"
        using td by simp_all
    qed
  qed
qed

lemma fail_stop_call: "fail_stop cl (call cl c)"
  by (auto simp add: fail_stop_def call_def)

lemma fail_stop_aws_log: "fail_stop cl (aws_log lv m)"
  by (simp add: fail_stop_def aws_log_def)

lemma fail_stop_settle_sleep: "fail_stop cl settle_sleep"
  by (simp add: fail_stop_def settle_sleep_def)

lemma fail_stop_return: "fail_stop cl (return v)"
  by (simp add: fail_stop_def return_def)

lemma fail_stop_raise: "fail_stop cl (raise e)"
  by (simp add: fail_stop_def raise_def)

lemma fail_stop_first_of: "fail_stop cl (first_of xs)"
  by (cases xs) (simp_all add: first_of_def fail_stop_return fail_stop_raise)

lemma fail_stop_if:
  "fail_stop cl m1 \<Longrightarrow> fail_stop cl m2 \<Longrightarrow> fail_stop cl (if b then m1 else m2)"
  by simp

lemmas fail_stop_intros =
  fail_stop_then_do fail_stop_call fail_stop_aws_log fail_stop_settle_sleep fail_stop_return
  fail_stop_raise fail_stop_first_of fail_stop_if

lemma fail_stop_create_iam_role: "fail_stop cl (create_iam_role cl)"
  unfolding create_iam_role_def by (intro fail_stop_intros)

lemma fail_stop_create_security_group: "fail_stop cl (create_security_group cl cfg)"
  unfolding create_security_group_def by (intro fail_stop_intros)

lemma fail_stop_create_subnet_group: "fail_stop cl (create_subnet_group cl vpc_id)"
  unfolding create_subnet_group_def by (intro fail_stop_intros)

lemma fail_stop_launch_redshift_cluster: "fail_stop cl (launch_redshift_cluster cl cfg r g)"
  unfolding launch_redshift_cluster_def by (intro fail_stop_intros)

lemma fail_stop_setup: "fail_stop cl (setup_fn cl cfg)"
  unfolding setup_fn_def split_def
  by (intro fail_stop_then_do fail_stop_create_iam_role fail_stop_create_security_group
        fail_stop_create_subnet_group fail_stop_launch_redshift_cluster fail_stop_aws_log
        fail_stop_settle_sleep fail_stop_return)

lemma setup_success_aux:
  "case snd (setup_fn cl cfg []) of
     Inl e \<Rightarrow> True
   | Inr v \<Rightarrow>
       operations (fst (setup_fn cl cfg [])) = setup_order \<and> clusters cl \<noteq> []
       \<and> v = (mk_RedshiftConfig (MASTER_USERNAME cfg) (MASTER_PASSWORD cfg) (hd (clusters cl))
                (DB_NAME cfg), created_arn cl, REGION cfg)"
  by (simp add: setup_unfold operations_def setup_order_def return_def
        split: option.splits list.splits)

lemma setup_success:
  assumes "snd (setup_fn cl cfg []) = Inr v"
  shows "operations (fst (setup_fn cl cfg [])) = setup_order"
    and "\<exists>endpoint rest. clusters cl = endpoint # rest
          \<and> v = (mk_RedshiftConfig (MASTER_USERNAME cfg) (MASTER_PASSWORD cfg) endpoint (DB_NAME cfg),
                 created_arn cl, REGION cfg)"
proof -
  from setup_success_aux [of cl cfg] assms
  have *: "operations (fst (setup_fn cl cfg [])) = setup_order" "clusters cl \<noteq> []"
    "v = (mk_RedshiftConfig (MASTER_USERNAME cfg) (MASTER_PASSWORD cfg) (hd (clusters cl))
                (DB_NAME cfg), created_arn cl, REGION cfg)"
    by simp_all
  from *(1) show "operations (fst (setup_fn cl cfg [])) = setup_order" .
  from *(2,3) show "\<exists>endpoint rest. clusters cl = endpoint # rest
          \<and> v = (mk_RedshiftConfig (MASTER_USERNAME cfg) (MASTER_PASSWORD cfg) endpoint (DB_NAME cfg),
                 created_arn cl, REGION cfg)"
    by (cases "clusters cl") simp_all
qed

lemma setup_no_default_group_aux:
  assumes "security_groups cl [DEFAULT_VPC_ID cfg, ''default''] = []"
  shows "''create_cluster'' \<notin> set (operations (fst (setup_fn cl cfg [])))
         \<and> (case snd (setup_fn cl cfg []) of Inl e \<Rightarrow> True | Inr v \<Rightarrow> False)"
  using assms
  by (simp add: setup_unfold operations_def return_def split: option.splits list.splits)

lemma setup_no_default_group_exact:
  assumes "security_groups cl [DEFAULT_VPC_ID cfg, ''default''] = []"
    and "\<forall>c. raises cl c = None" and "vpcs cl \<noteq> []"
  shows "snd (setup_fn cl cfg []) = Inl ResourceWarning
         \<and> operations (fst (setup_fn cl cfg [])) = take 10 setup_order"
proof -
  from assms(3) obtain v vs where v: "vpcs cl = v # vs" by (cases "vpcs cl") auto
  show ?thesis
    using assms(1,2) v
    by (simp add: setup_unfold operations_def setup_order_def return_def)
qed

lemma setup_raise_is_last:
  assumes "AwsCall c \<in> set (fst (setup_fn cl cfg []))" and "raises cl c = Some e"
  shows "snd (setup_fn cl cfg []) = Inl e \<and> last (fst (setup_fn cl cfg [])) = AwsCall c"
proof -
  from fail_stop_setup [of cl cfg] obtain d where
    "fst (setup_fn cl cfg []) = [] @ d"
    "\<forall>c e. AwsCall c \<in> set d \<and> raises cl c = Some e \<longrightarrow>
       snd (setup_fn cl cfg []) = Inl e \<and> last (fst (setup_fn cl cfg [])) = AwsCall c"
    unfolding fail_stop_def by blast
  with assms show ?thesis by simp
qed

lemma prefix_distinct: "prefix xs ys \<Longrightarrow> distinct ys \<Longrightarrow> distinct xs"
  by (auto simp add: prefix_def)

text \<open>
  Claim C6. \<open>setup\<close> makes its calls in the order create role, create security group,
  create subnet group, settle delay, launch cluster (the operations of a run are an
  initial segment of that order, none made twice); a call that raises is the last thing
  the function does and its exception is the result, so that nothing of a later step runs
  and nothing is retried; when the default security group is not found the cluster is
  never created and the run ends with an exception (\<open>ResourceWarning\<close> when nothing else
  has failed); and a run that returns has made all the calls and returns the configuration
  assembled from the master credentials, the endpoint, the database name, the role and the
  region.
\<close>

theorem setup_ordered_and_fatal:
  "prefix (operations (fst (setup_fn cl cfg []))) setup_order
   \<and> distinct (operations (fst (setup_fn cl cfg [])))
   \<and> (\<forall>c e. AwsCall c \<in> set (fst (setup_fn cl cfg [])) \<and> raises cl c = Some e \<longrightarrow>
         snd (setup_fn cl cfg []) = Inl e \<and> last (fst (setup_fn cl cfg [])) = AwsCall c)
   \<and> (security_groups cl [DEFAULT_VPC_ID cfg, ''default''] = [] \<longrightarrow>
         ''create_cluster'' \<notin> set (operations (fst (setup_fn cl cfg [])))
         \<and> (\<exists>e. snd (setup_fn cl cfg []) = Inl e)
         \<and> ((\<forall>c. raises cl c = None) \<and> vpcs cl \<noteq> [] \<longrightarrow>
               snd (setup_fn cl cfg []) = Inl ResourceWarning
               \<and> operations (fst (setup_fn cl cfg [])) = take 10 setup_order))
   \<and> (\<forall>v. snd (setup_fn cl cfg []) = Inr v \<longrightarrow>
         operations (fst (setup_fn cl cfg [])) = setup_order
         \<and> (\<exists>endpoint rest. clusters cl = endpoint # rest
              \<and> v = (mk_RedshiftConfig (MASTER_USERNAME cfg) (MASTER_PASSWORD cfg) endpoint (DB_NAME cfg),
                     created_arn cl, REGION cfg)))"
proof (intro conjI allI impI)
  show p: "prefix (operations (fst (setup_fn cl cfg []))) setup_order"
    by (rule setup_order_prefix)
  have "distinct setup_order"
    by (simp add: setup_order_def)
  with p show "distinct (operations (fst (setup_fn cl cfg [])))"
    by (rule prefix_distinct)
next
  fix c e
  assume "AwsCall c \<in> set (fst (setup_fn cl cfg [])) \<and> raises cl c = Some e"
  then show "snd (setup_fn cl cfg []) = Inl e" "last (fst (setup_fn cl cfg [])) = AwsCall c"
    using setup_raise_is_last [of c cl cfg e] by simp_all
next
  assume n: "security_groups cl [DEFAULT_VPC_ID cfg, ''default''] = []"
  from setup_no_default_group_aux [OF n]
  show "''create_cluster'' \<notin> set (operations (fst (setup_fn cl cfg [])))"
    and "\<exists>e. snd (setup_fn cl cfg []) = Inl e"
    by (simp_all split: sum.splits)
  assume "(\<forall>c. raises cl c = None) \<and> vpcs cl \<noteq> []"
  with setup_no_default_group_exact [OF n]
  show "snd (setup_fn cl cfg []) = Inl ResourceWarning"
    and "operations (fst (setup_fn cl cfg [])) = take 10 setup_order"
    by simp_all
next
  fix v
  assume "snd (setup_fn cl cfg []) = Inr v"
  from setup_success [OF this]
  show "operations (fst (setup_fn cl cfg [])) = setup_order"
    and "\<exists>endpoint rest. clusters cl = endpoint # rest
          \<and> v = (mk_RedshiftConfig (MASTER_USERNAME cfg) (MASTER_PASSWORD cfg) endpoint (DB_NAME cfg),
                 created_arn cl, REGION cfg)"
    by simp_all
qed

theorem setup_ordered_and_fatal_witness:
  "snd (setup_fn healthy_cloud dwh [])
     = Inr (mk_RedshiftConfig ''awsuser'' ''secret'' ''dwh.example.com'' ''dev'',
            ''arn:aws:iam::1:role/dwh'', ''us-west-2'')
   \<and> operations (fst (setup_fn healthy_cloud dwh [])) = setup_order
   \<and> setup_fn failing_cloud dwh [] = ([AwsLog INFO CreatingIamRole, AwsCall CreateRole], Inl ClientError)
   \<and> snd (setup_fn no_default_group_cloud dwh []) = Inl ResourceWarning
   \<and> operations (fst (setup_fn no_default_group_cloud dwh [])) = take 10 setup_order"
proof -
  have h: "snd (setup_fn healthy_cloud dwh [])
     = Inr (mk_RedshiftConfig ''awsuser'' ''secret'' ''dwh.example.com'' ''dev'',
            ''arn:aws:iam::1:role/dwh'', ''us-west-2'')"
    by (simp add: setup_unfold return_def healthy_cloud_def dwh_def)
  have f: "setup_fn failing_cloud dwh [] = ([AwsLog INFO CreatingIamRole, AwsCall CreateRole], Inl ClientError)"
    by (simp add: setup_unfold return_def failing_cloud_def healthy_cloud_def dwh_def)
  have n: "security_groups no_default_group_cloud [DEFAULT_VPC_ID dwh, ''default''] = []"
    "\<forall>c. raises no_default_group_cloud c = None" "vpcs no_default_group_cloud \<noteq> []"
    by (simp_all add: no_default_group_cloud_def healthy_cloud_def)
  from setup_ordered_and_fatal [of healthy_cloud dwh] h
  have "operations (fst (setup_fn healthy_cloud dwh [])) = setup_order"
    by blast
  moreover from setup_ordered_and_fatal [of no_default_group_cloud dwh] n
  have "snd (setup_fn no_default_group_cloud dwh []) = Inl ResourceWarning
        \<and> operations (fst (setup_fn no_default_group_cloud dwh [])) = take 10 setup_order"
    by blast
  ultimately show ?thesis using h f by simp
qed

section \<open>Properties of the command line and of the pickled record\<close>

lemma then_do_record_ev:
  "then_do (record_ev ev) f w = f () (w\<lparr>did := did w @ [ev]\<rparr>)"
  by (simp add: then_do_def record_ev_def)

lemma then_do_main_log:
  "then_do (main_log lv m) f w = f () (w\<lparr>did := did w @ [MainLog lv m]\<rparr>)"
  by (simp add: main_log_def then_do_record_ev)

lemma then_do_of_sum:
  "then_do (of_sum r) f w = (case r of Inl e \<Rightarrow> (w, Inl e) | Inr v \<Rightarrow> f v w)"
  by (simp add: then_do_def of_sum_def raise_def return_def split: sum.splits)

lemma then_do_of_option:
  "then_do (of_option r) f w = (case r of Some e \<Rightarrow> (w, Inl e) | None \<Rightarrow> f () w)"
  by (simp add: then_do_def of_option_def raise_def return_def split: option.splits)

lemma then_do_raise_main: "then_do (raise e) f w = (w, Inl e)"
  by (simp add: then_do_def raise_def)

lemma then_do_write_file:
  "then_do (write_file path b) f w = f () (w\<lparr>files := (files w)(path \<mapsto> b)\<rparr>)"
  by (simp add: then_do_def write_file_def)

lemma then_do_read_file:
  "then_do (read_file path) f w =
     (case files w path of None \<Rightarrow> (w, Inl FileNotFoundError) | Some b \<Rightarrow> f b w)"
  by (simp add: then_do_def read_file_def raise_def return_def split: option.splits)

lemmas main_unfold =
  main_def run_and_pickle_setup_def load_pickled_setup_def setup_redshift_tables_def
  run_sample_queries_def run_teardown_def then_do_record_ev then_do_main_log then_do_of_sum
  then_do_of_option then_do_raise_main then_do_write_file then_do_read_file

text \<open>
  Claim C5, amended. When the pickled record is missing: \<open>--etl\<close> and \<open>--sample\<close> log an
  error and leave with \<open>sys.exit(1)\<close>, having called nothing else (exit status 1);
  \<open>--teardown\<close> does not look for the record first: it calls \<open>teardown()\<close> and, when that
  returns, logs a warning that there is no file to delete and returns normally.
\<close>

theorem main_requires_record:
  assumes "\<not> file_exists pickle_path w"
  shows "(\<not> arg_setup a \<and> arg_etl a \<longrightarrow>
            main pr a w = (w\<lparr>did := did w @ [MainLog ERROR PickleNotFoundRunSetupFirst]\<rparr>,
                           Inl (SystemExit 1))
            \<and> exit_status (snd (main pr a w)) = 1)
       \<and> (\<not> arg_setup a \<and> \<not> arg_etl a \<and> \<not> arg_teardown a \<and> arg_sample a \<longrightarrow>
            main pr a w = (w\<lparr>did := did w @ [MainLog ERROR PickleNotFoundRunSetupAndEtlFirst]\<rparr>,
                           Inl (SystemExit 1))
            \<and> exit_status (snd (main pr a w)) = 1)
       \<and> (\<not> arg_setup a \<and> \<not> arg_etl a \<and> arg_teardown a \<longrightarrow>
            main pr a w =
              (case p_teardown pr of
                 Some e \<Rightarrow> (w\<lparr>did := did w @ [MainLog INFO StartingTeardown, CalledTeardown]\<rparr>, Inl e)
               | None \<Rightarrow>
                   (w\<lparr>did := did w @ [MainLog INFO StartingTeardown, CalledTeardown,
                                       MainLog WARNING PickleFileNotFoundNothingToDelete]\<rparr>, Inr ())))"
  using assms
  by (simp add: main_unfold file_exists_def record_ev_def main_log_def raise_def return_def
        split: option.splits)

theorem main_requires_record_witness:
  "\<not> file_exists pickle_path empty_world
   \<and> main demo_procs etl_args empty_world
       = (empty_world\<lparr>did := [MainLog ERROR PickleNotFoundRunSetupFirst]\<rparr>, Inl (SystemExit 1))
   \<and> exit_status (snd (main demo_procs etl_args empty_world)) = 1
   \<and> main demo_procs sample_args empty_world
       = (empty_world\<lparr>did := [MainLog ERROR PickleNotFoundRunSetupAndEtlFirst]\<rparr>, Inl (SystemExit 1))
   \<and> exit_status (snd (main demo_procs sample_args empty_world)) = 1"
proof -
  have e: "\<not> file_exists pickle_path empty_world"
    by (simp add: file_exists_def empty_world_def)
  from main_requires_record [OF e, of etl_args demo_procs]
    main_requires_record [OF e, of sample_args demo_procs] e
  show ?thesis
    by (simp add: etl_args_def sample_args_def empty_world_def)
qed

text \<open>
  Claim C5 as stated fails for decommission: with no record in the directory,
  \<open>--teardown\<close> performs the teardown and the process ends with exit status 0.
\<close>

theorem main_requires_record_counterexample:
  "\<not> file_exists pickle_path empty_world
   \<and> did (fst (main demo_procs teardown_args empty_world))
       = [MainLog INFO StartingTeardown, CalledTeardown,
          MainLog WARNING PickleFileNotFoundNothingToDelete]
   \<and> snd (main demo_procs teardown_args empty_world) = Inr ()
   \<and> exit_status (snd (main demo_procs teardown_args empty_world)) = 0"
  by (simp add: main_unfold file_exists_def record_ev_def main_log_def raise_def return_def
        teardown_args_def
        demo_procs_def empty_world_def pickle_path_def)

text \<open>
  Claim C8. \<open>run_and_pickle_setup\<close> stores what \<open>pickle.dump\<close> makes of the session that
  \<open>setup()\<close> returned under the path \<open>load_pickled_setup\<close> reads; \<open>load_pickled_setup\<close>
  returns what \<open>pickle.load\<close> makes of the contents of that file, whatever they are, and
  raises \<open>FileNotFoundError\<close> when there is none. So, provided \<open>pickle.load\<close> gives back what
  \<open>pickle.dump\<close> was given, reloading returns the configuration, role and region that the
  file holds: those of any session whose record is in the directory, and, after
  \<open>run_and_pickle_setup\<close>, those \<open>setup()\<close> returned.
\<close>

theorem pickle_round_trip:
  "(p_setup pr = Inr v \<longrightarrow>
      snd (run_and_pickle_setup pr w) = Inr ()
      \<and> files (fst (run_and_pickle_setup pr w)) pickle_path = Some (p_dump pr v))
   \<and> (\<forall>w' b. files w' pickle_path = Some b \<longrightarrow> snd (load_pickled_setup pr w') = p_load pr b)
   \<and> (\<forall>w'. files w' pickle_path = None \<longrightarrow>
         snd (load_pickled_setup pr w') = Inl FileNotFoundError)
   \<and> ((\<forall>u. p_load pr (p_dump pr u) = Inr u) \<longrightarrow>
         (\<forall>w' u. files w' pickle_path = Some (p_dump pr u) \<longrightarrow>
            snd (load_pickled_setup pr w') = Inr u)
         \<and> (p_setup pr = Inr v \<longrightarrow>
              snd (load_pickled_setup pr (fst (run_and_pickle_setup pr w))) = Inr v))"
proof -
  have store: "p_setup pr = Inr v \<longrightarrow>
      snd (run_and_pickle_setup pr w) = Inr ()
      \<and> files (fst (run_and_pickle_setup pr w)) pickle_path = Some (p_dump pr v)"
    by (cases v) (simp add: main_unfold record_ev_def main_log_def)
  have load: "\<And>w' b. files w' pickle_path = Some b \<Longrightarrow>
      snd (load_pickled_setup pr w') = p_load pr b"
  proof -
    fix w' :: "'a world" and b
    assume "files w' pickle_path = Some b"
    then show "snd (load_pickled_setup pr w') = p_load pr b"
      by (cases "p_load pr b") (auto simp add: main_unfold return_def)
  qed
  have missing: "\<And>w'. files w' pickle_path = None \<Longrightarrow>
      snd (load_pickled_setup pr w') = Inl FileNotFoundError"
    by (simp add: main_unfold)
  from store load missing show ?thesis
    by (cases v) auto
qed

theorem pickle_round_trip_witness:
  "snd (run_and_pickle_setup demo_procs empty_world) = Inr ()
   \<and> snd (load_pickled_setup demo_procs (fst (run_and_pickle_setup demo_procs empty_world)))
       = Inr demo_session
   \<and> snd (load_pickled_setup demo_procs stored_world) = Inr other_session"
proof -
  have rt: "\<forall>v. p_load demo_procs (p_dump demo_procs v) = Inr v"
    by (auto simp add: demo_procs_def pickle_dump_def)
  have s: "p_setup demo_procs = Inr demo_session"
    by (simp add: demo_procs_def)
  have f: "files stored_world pickle_path = Some (p_dump demo_procs other_session)"
    by (simp add: stored_world_def demo_procs_def)
  note T = pickle_round_trip [of demo_procs demo_session empty_world]
  from T [THEN conjunct1] s
  have 1: "snd (run_and_pickle_setup demo_procs empty_world) = Inr ()"
    by simp
  from T [THEN conjunct2, THEN conjunct2, THEN conjunct2] rt
  have 2: "(\<forall>w' u. files w' pickle_path = Some (p_dump demo_procs u) \<longrightarrow>
            snd (load_pickled_setup demo_procs w') = Inr u)
         \<and> (p_setup demo_procs = Inr demo_session \<longrightarrow>
              snd (load_pickled_setup demo_procs (fst (run_and_pickle_setup demo_procs empty_world)))
                = Inr demo_session)"
    by blast
  from 2 f have "snd (load_pickled_setup demo_procs stored_world) = Inr other_session"
    by blast
  with 1 2 s show ?thesis by simp
qed

end
